theory Spec2Isabelle
  imports Main
begin

section \<open>Python strings\<close>

text \<open>
  A Python \<open>str\<close> is a sequence of Unicode code points; a code point is modelled as a
  natural number, and a string is well formed when every code point is at most U+10FFFF.
  Lone surrogates (U+D800 to U+DFFF) may occur in a Python string.
\<close>

type_synonym pystr = "nat list"

definition valid_str :: "pystr \<Rightarrow> bool" where
  "valid_str s = list_all (\<lambda>c. c \<le> 1114111) s"

definition of_ascii :: "string \<Rightarrow> pystr" where
  "of_ascii s = map of_char s"

text \<open>The characters \<open>str.strip()\<close> and \<open>str.split()\<close> treat as whitespace.\<close>

definition py_isspace :: "nat \<Rightarrow> bool" where
  "py_isspace c \<longleftrightarrow>
     (9 \<le> c \<and> c \<le> 13) \<or> (28 \<le> c \<and> c \<le> 32) \<or> c = 133 \<or> c = 160 \<or> c = 5760 \<or>
     (8192 \<le> c \<and> c \<le> 8202) \<or> c = 8232 \<or> c = 8233 \<or> c = 8239 \<or> c = 8287 \<or>
     c = 12288"

definition py_strip :: "pystr \<Rightarrow> pystr" where
  "py_strip s = rev (dropWhile py_isspace (rev (dropWhile py_isspace s)))"

text \<open>\<open>s.split()\<close>: the maximal runs of non-whitespace characters.\<close>

fun split_ws :: "pystr \<Rightarrow> pystr \<Rightarrow> pystr list" where
  "split_ws cur [] = (if cur = [] then [] else [cur])"
| "split_ws cur (c # cs) =
     (if py_isspace c then (if cur = [] then split_ws [] cs else cur # split_ws [] cs)
      else split_ws (cur @ [c]) cs)"

definition py_split :: "pystr \<Rightarrow> pystr list" where
  "py_split s = split_ws [] s"

text \<open>\<open>s.split(sep)\<close> for a one-character separator: empty fields are kept.\<close>

fun split_on :: "nat \<Rightarrow> pystr \<Rightarrow> pystr \<Rightarrow> pystr list" where
  "split_on sep cur [] = [cur]"
| "split_on sep cur (c # cs) =
     (if c = sep then cur # split_on sep [] cs else split_on sep (cur @ [c]) cs)"

definition py_split_sep :: "nat \<Rightarrow> pystr \<Rightarrow> pystr list" where
  "py_split_sep sep s = split_on sep [] s"

fun py_join :: "pystr \<Rightarrow> pystr list \<Rightarrow> pystr" where
  "py_join sep [] = []"
| "py_join sep [x] = x"
| "py_join sep (x # y # ys) = x @ sep @ py_join sep (y # ys)"

text \<open>\<open>xs[a:b]\<close> with Python's treatment of negative and out-of-range bounds.\<close>

definition slice_bound :: "nat \<Rightarrow> int \<Rightarrow> nat" where
  "slice_bound n i = (if i < 0 then nat (max 0 (int n + i)) else min n (nat i))"

definition py_slice :: "'a list \<Rightarrow> int \<Rightarrow> int \<Rightarrow> 'a list" where
  "py_slice xs a b =
     (let lo = slice_bound (length xs) a; hi = slice_bound (length xs) b
      in take (hi - lo) (drop lo xs))"

section \<open>Paths\<close>

text \<open>\<open>os.path.join(a, b)\<close> and the root part of \<open>os.path.splitext(p)\<close> (POSIX).\<close>

definition os_path_join :: "pystr \<Rightarrow> pystr \<Rightarrow> pystr" where
  "os_path_join a b =
     (if b \<noteq> [] \<and> hd b = 47 then b
      else if a = [] \<or> last a = 47 then a @ b
      else a @ [47] @ b)"

fun rfind_from :: "nat \<Rightarrow> pystr \<Rightarrow> int \<Rightarrow> int \<Rightarrow> int" where
  "rfind_from c [] i best = best"
| "rfind_from c (x # xs) i best = rfind_from c xs (i + 1) (if x = c then i else best)"

definition py_rfind :: "nat \<Rightarrow> pystr \<Rightarrow> int" where
  "py_rfind c s = rfind_from c s 0 (- 1)"

definition splitext_root :: "pystr \<Rightarrow> pystr" where
  "splitext_root p =
     (let sepIndex = py_rfind 47 p; dotIndex = py_rfind 46 p
      in if dotIndex > sepIndex \<and>
            list_ex (\<lambda>c. c \<noteq> 46) (py_slice p (sepIndex + 1) dotIndex)
         then py_slice p 0 dotIndex else p)"

section \<open>The outside world\<close>

text \<open>
  Every exception is a value; the only thing the application reads from one is its
  message (\<open>str(e)\<close>).
\<close>

datatype exn = Exception (message: pystr)

datatype document = Document (page_content: pystr)

text \<open>
  What \<open>get_late_chunked_text\<close> may find in its argument: a \<open>Document\<close>, a dict with
  the key \<open>page_content\<close> (carrying that entry), or any other object (carrying its
  \<open>str()\<close>).
\<close>

datatype pyobj = Doc document | PageDict pystr | Other pystr

record upload =
  name :: pystr
  getbuffer :: "nat list"

datatype image = PILImage upload

datatype file_type = PDF | PPT | Excel | Image | Audio | Video

text \<open>The file system: a path is absent, a file, a folder, or a saved FAISS index.\<close>

datatype 's node = FileNode "nat list" | Folder | IndexDir 's

text \<open>The calls to network services and the operations on the index directory, in order.\<close>

datatype 's event =
    CohereGenerate pystr
  | SimilaritySearch 's pystr
  | QAChain "document list" pystr
  | FromTexts "pystr list" bool
  | SaveLocal pystr
  | LoadLocal pystr
  | Rmtree pystr

text \<open>
  The libraries and services the application calls, as parameters: each either raises or
  returns. \<open>'s\<close> is the type of a FAISS vector store.
  \<^item> \<open>cohere_generate prompt\<close>: the texts of \<open>response.generations\<close>;
  \<^item> \<open>similarity_search vs query\<close>: \<open>vs.similarity_search(query)\<close>;
  \<^item> \<open>qa_chain docs question\<close>: building the chain of \<open>get_conversational_chain\<close>,
    calling it and reading \<open>output_text\<close>;
  \<^item> \<open>from_texts texts normalize_L2\<close>: \<open>FAISS.from_texts\<close> with the Google embeddings;
  \<^item> \<open>save_local vs path\<close>, \<open>load_local path node\<close>: \<open>FAISS.save_local\<close> and
    \<open>FAISS.load_local\<close>;
  \<^item> \<open>split_text chunk_size chunk_overlap separators text\<close>:
    \<open>RecursiveCharacterTextSplitter(...).split_text(text)\<close>;
  \<^item> \<open>pdf_page_texts file\<close>: \<open>extract_text()\<close> of each page of \<open>PdfReader(file)\<close>;
  \<^item> \<open>ppt_shape_texts file\<close>: for each slide of \<open>Presentation(file)\<close> and each of its
    shapes, the shape's text when it has one;
  \<^item> \<open>excel_to_csv file\<close>: \<open>pd.read_excel(file).to_csv(index=False)\<close>;
  \<^item> \<open>open_write path bytes\<close>: opening the path for writing and writing the bytes;
  \<^item> \<open>ffmpeg_run path node\<close>: the WAV file ffmpeg writes, if it writes one;
  \<^item> \<open>whisper_transcribe node\<close>: the text of the Whisper transcription;
  \<^item> \<open>image_open file\<close>: \<open>Image.open(file)\<close>.
\<close>

record 's env =
  cohere_generate :: "pystr \<Rightarrow> exn + pystr list"
  similarity_search :: "'s \<Rightarrow> pystr \<Rightarrow> exn + document list"
  qa_chain :: "document list \<Rightarrow> pystr \<Rightarrow> exn + pystr"
  from_texts :: "pystr list \<Rightarrow> bool \<Rightarrow> exn + 's"
  save_local :: "'s \<Rightarrow> pystr \<Rightarrow> exn option"
  load_local :: "pystr \<Rightarrow> 's node \<Rightarrow> exn + 's"
  split_text :: "nat \<Rightarrow> nat \<Rightarrow> pystr list \<Rightarrow> pystr \<Rightarrow> pystr list"
  pdf_page_texts :: "upload \<Rightarrow> exn + pystr list"
  ppt_shape_texts :: "upload \<Rightarrow> exn + pystr option list list"
  excel_to_csv :: "upload \<Rightarrow> exn + pystr"
  open_write :: "pystr \<Rightarrow> nat list \<Rightarrow> exn option"
  ffmpeg_run :: "pystr \<Rightarrow> 's node \<Rightarrow> exn + nat list option"
  whisper_transcribe :: "'s node \<Rightarrow> exn + pystr"
  image_open :: "upload \<Rightarrow> exn + image"

text \<open>
  \<open>st.session_state\<close> after the initialisation at the top of the script: every key but
  \<open>video_processed\<close> is present from then on (so the later tests
  \<open>'content' not in st.session_state\<close> are false).
\<close>

record 's session_state =
  content :: pystr
  uploaded_image :: "image option"
  vector_store :: "'s option"
  documents_processed :: bool
  audio_processed :: bool
  video_processed :: "bool option"

record 's world =
  st :: "'s session_state"
  fs :: "pystr \<Rightarrow> 's node option"
  trace :: "'s event list"

definition emit :: "'s event list \<Rightarrow> 's world \<Rightarrow> 's world" where
  "emit evs w = w\<lparr>trace := trace w @ evs\<rparr>"

definition UPLOAD_FOLDER :: pystr where
  "UPLOAD_FOLDER = of_ascii ''uploads''"

definition index_folder :: pystr where
  "index_folder = of_ascii ''vector_store_index''"

section \<open>Utility functions for file handling\<close>

text \<open>
  \<open>shutil.rmtree\<close> deletes a directory and raises when the path is a regular file; the
  exception leaves the world as it was.
\<close>

definition clear_old_index :: "'s world \<Rightarrow> exn + 's world" where
  "clear_old_index w =
     (case fs w index_folder of
        None \<Rightarrow> Inr w
      | Some (FileNode b) \<Rightarrow> Inl (Exception (of_ascii ''NotADirectoryError''))
      | Some nd \<Rightarrow> Inr (emit [Rmtree index_folder] (w\<lparr>fs := (fs w)(index_folder := None)\<rparr>)))"

text \<open>\<open>os.makedirs(path, exist_ok=True)\<close> raises when the path is an existing file.\<close>

definition makedirs :: "pystr \<Rightarrow> 's world \<Rightarrow> exn + 's world" where
  "makedirs p w =
     (case fs w p of
        None \<Rightarrow> Inr (w\<lparr>fs := (fs w)(p \<mapsto> Folder)\<rparr>)
      | Some (FileNode b) \<Rightarrow> Inl (Exception (of_ascii ''FileExistsError''))
      | Some nd \<Rightarrow> Inr w)"

definition handle_file_upload ::
  "'s env \<Rightarrow> upload option \<Rightarrow> 's world \<Rightarrow> (exn + pystr option) \<times> 's world" where
  "handle_file_upload env uploaded_file w =
     (case uploaded_file of
        None \<Rightarrow> (Inr None, w)
      | Some f \<Rightarrow>
          (case makedirs UPLOAD_FOLDER w of
             Inl e \<Rightarrow> (Inl e, w)
           | Inr w1 \<Rightarrow>
               (let file_path = os_path_join UPLOAD_FOLDER (name f)
                in case open_write env file_path (getbuffer f) of
                     Some e \<Rightarrow> (Inl e, w1)
                   | None \<Rightarrow>
                       (Inr (Some file_path),
                        w1\<lparr>fs := (fs w1)(file_path \<mapsto> FileNode (getbuffer f))\<rparr>))))"

definition load_excel_and_convert_to_csv :: "'s env \<Rightarrow> upload \<Rightarrow> pystr" where
  "load_excel_and_convert_to_csv env file =
     (case excel_to_csv env file of
        Inr csv \<Rightarrow> csv
      | Inl e \<Rightarrow> of_ascii ''Error: '' @ message e)"

definition get_ppt_content :: "'s env \<Rightarrow> upload \<Rightarrow> exn + pystr" where
  "get_ppt_content env file =
     (case ppt_shape_texts env file of
        Inl e \<Rightarrow> Inl e
      | Inr slides \<Rightarrow>
          Inr (py_join [10]
                 (map (\<lambda>shapes. concat (map (\<lambda>t. case t of None \<Rightarrow> [] | Some x \<Rightarrow> x) shapes))
                    slides)))"

definition get_pdf_text :: "'s env \<Rightarrow> upload \<Rightarrow> exn + pystr" where
  "get_pdf_text env file =
     (case pdf_page_texts env file of
        Inl e \<Rightarrow> Inl e
      | Inr pages \<Rightarrow> Inr (foldl (\<lambda>text page. text @ page) [] pages))"

section \<open>Text processing and vector store functions\<close>

definition default_separators :: "pystr list" where
  "default_separators = [[10, 10], [10], [32], []]"

definition get_text_chunks :: "'s env \<Rightarrow> pystr \<Rightarrow> pystr list" where
  "get_text_chunks env text = split_text env 1000 100 default_separators text"

definition is_surrogate :: "nat \<Rightarrow> bool" where
  "is_surrogate c \<longleftrightarrow> 55296 \<le> c \<and> c \<le> 57343"

text \<open>
  \<open>text.encode("utf-8", "replace").decode("utf-8")\<close>: a lone surrogate cannot be
  encoded and becomes a question mark; every other character survives the round trip.
\<close>

definition encode_replace_decode :: "pystr \<Rightarrow> pystr" where
  "encode_replace_decode s = map (\<lambda>c. if is_surrogate c then 63 else c) s"

text \<open>The argument is \<open>None\<close> or a string; both \<open>None\<close> and the empty string are falsy.\<close>

definition clean_text :: "pystr option \<Rightarrow> pystr" where
  "clean_text text =
     (case text of
        None \<Rightarrow> []
      | Some s \<Rightarrow>
          if s = [] then []
          else py_strip (filter (\<lambda>c. \<not> (65536 \<le> c \<and> c \<le> 1114111)) (encode_replace_decode s)))"

definition get_vector_store ::
  "'s env \<Rightarrow> pystr list \<Rightarrow> pystr \<Rightarrow> 's world \<Rightarrow> (exn + 's) \<times> 's world" where
  "get_vector_store env text_chunks vector_store_path w =
     (let cleaned_chunks = map (\<lambda>chunk. clean_text (Some chunk)) text_chunks;
          w1 = emit [FromTexts cleaned_chunks False] w
      in case from_texts env cleaned_chunks False of
           Inl e \<Rightarrow> (Inl e, w1)
         | Inr vs \<Rightarrow>
             (let w2 = emit [SaveLocal vector_store_path] w1
              in case save_local env vs vector_store_path of
                   Some e \<Rightarrow> (Inl e, w2)
                 | None \<Rightarrow> (Inr vs, w2\<lparr>fs := (fs w2)(vector_store_path \<mapsto> IndexDir vs)\<rparr>)))"

definition load_vector_store ::
  "'s env \<Rightarrow> pystr \<Rightarrow> 's world \<Rightarrow> (exn + 's option) \<times> 's world" where
  "load_vector_store env vector_store_path w =
     (case fs w vector_store_path of
        None \<Rightarrow> (Inr None, w)
      | Some nd \<Rightarrow>
          (case load_local env vector_store_path nd of
             Inl e \<Rightarrow> (Inl e, emit [LoadLocal vector_store_path] w)
           | Inr vs \<Rightarrow> (Inr (Some vs), emit [LoadLocal vector_store_path] w)))"

section \<open>Audio and video processing\<close>

definition extract_audio :: "'s env \<Rightarrow> pystr \<Rightarrow> 's world \<Rightarrow> pystr option \<times> 's world" where
  "extract_audio env video_path w =
     (case fs w video_path of
        None \<Rightarrow> (None, w)
      | Some nd \<Rightarrow>
          (let audio_output = splitext_root video_path @ of_ascii ''.wav''
           in case ffmpeg_run env video_path nd of
                Inl e \<Rightarrow> (None, w)
              | Inr out \<Rightarrow>
                  (let w1 = (case out of
                               None \<Rightarrow> w
                             | Some b \<Rightarrow> w\<lparr>fs := (fs w)(audio_output \<mapsto> FileNode b)\<rparr>)
                   in if fs w1 audio_output \<noteq> None then (Some audio_output, w1)
                      else (None, w1))))"

definition transcribe_audio :: "'s env \<Rightarrow> pystr \<Rightarrow> 's world \<Rightarrow> pystr option" where
  "transcribe_audio env audio_file_path w =
     (case fs w audio_file_path of
        None \<Rightarrow> None
      | Some nd \<Rightarrow>
          (case whisper_transcribe env nd of
             Inl e \<Rightarrow> None
           | Inr transcription \<Rightarrow> Some transcription))"

text \<open>\<open>os.remove(path)\<close>: raises (\<open>None\<close>) unless the path is a file.\<close>

definition os_remove :: "pystr \<Rightarrow> 's world \<Rightarrow> 's world option" where
  "os_remove p w =
     (case fs w p of
        Some (FileNode b) \<Rightarrow> Some (w\<lparr>fs := (fs w)(p := None)\<rparr>)
      | _ \<Rightarrow> None)"

text \<open>The clean-up of the temporary files, inside its own \<open>try\<close>: a failure is only logged.\<close>

definition remove_all :: "pystr list \<Rightarrow> 's world \<Rightarrow> 's world" where
  "remove_all ps w =
     fst (foldl (\<lambda>(w', ok) p. if ok then (case os_remove p w' of
                                             None \<Rightarrow> (w', False)
                                           | Some w'' \<Rightarrow> (w'', True))
                               else (w', ok))
            (w, True) ps)"

definition process_video :: "'s env \<Rightarrow> upload option \<Rightarrow> 's world \<Rightarrow> bool \<times> 's world" where
  "process_video env uploaded_video w =
     (case uploaded_video of
        None \<Rightarrow> (False, w)
      | Some f \<Rightarrow>
          (case handle_file_upload env (Some f) w of
             (Inl e, w1) \<Rightarrow> (False, w1)
           | (Inr None, w1) \<Rightarrow> (False, w1)
           | (Inr (Some video_path), w1) \<Rightarrow>
               if video_path = [] then (False, w1)
               else
                 (case extract_audio env video_path w1 of
                    (None, w2) \<Rightarrow> (False, w2)
                  | (Some audio_path, w2) \<Rightarrow>
                      if audio_path = [] then (False, w2)
                      else
                        (case transcribe_audio env audio_path w2 of
                           None \<Rightarrow> (False, w2)
                         | Some transcription \<Rightarrow>
                             if transcription = [] then (False, w2)
                             else
                               (let w3 = w2\<lparr>st := (st w2)\<lparr>content :=
                                            content (st w2) @ transcription @ [10]\<rparr>\<rparr>
                                in case clear_old_index w3 of
                                     Inl e \<Rightarrow> (False, w3)
                                   | Inr w4 \<Rightarrow>
                                       (let text_chunks = get_text_chunks env (content (st w4))
                                        in case get_vector_store env text_chunks index_folder w4 of
                                             (Inl e, w5) \<Rightarrow> (False, w5)
                                           | (Inr vs, w5) \<Rightarrow>
                                               (let w6 = w5\<lparr>st := (st w5)\<lparr>vector_store := Some vs,
                                                            documents_processed := True\<rparr>\<rparr>
                                                in (True, remove_all [video_path, audio_path] w6))))))))"

definition audio_separators :: "pystr list" where
  "audio_separators = [[10, 10], [10], [46], [33], [63], [44], [32]]"

definition process_audio :: "'s env \<Rightarrow> upload option \<Rightarrow> 's world \<Rightarrow> bool \<times> 's world" where
  "process_audio env uploaded_audio w =
     (case uploaded_audio of
        None \<Rightarrow> (False, w)
      | Some f \<Rightarrow>
          (case handle_file_upload env (Some f) w of
             (Inl e, w1) \<Rightarrow> (False, w1)
           | (Inr None, w1) \<Rightarrow> (False, w1)
           | (Inr (Some audio_path), w1) \<Rightarrow>
               if audio_path = [] then (False, w1)
               else
                 (case transcribe_audio env audio_path w1 of
                    None \<Rightarrow> (False, w1)
                  | Some transcription \<Rightarrow>
                      if transcription = [] then (False, w1)
                      else
                        (case clear_old_index w1 of
                           Inl e \<Rightarrow> (False, w1)
                         | Inr w2 \<Rightarrow>
                            (let text_chunks = split_text env 500 50 audio_separators transcription;
                                 w3 = emit [FromTexts text_chunks True] w2
                             in case from_texts env text_chunks True of
                                  Inl e \<Rightarrow> (False, w3)
                                | Inr vs \<Rightarrow>
                                    (let w4 = w3\<lparr>st := (st w3)\<lparr>vector_store := Some vs\<rparr>\<rparr>;
                                         w5 = emit [SaveLocal index_folder] w4
                                     in case save_local env vs index_folder of
                                          Some e \<Rightarrow> (False, w5)
                                        | None \<Rightarrow>
                                            (let w6 = w5\<lparr>fs := (fs w5)(index_folder \<mapsto> IndexDir vs)\<rparr>;
                                                 w7 = w6\<lparr>st := (st w6)\<lparr>documents_processed := True\<rparr>\<rparr>;
                                                 w8 = w7\<lparr>st := (st w7)\<lparr>content := transcription\<rparr>\<rparr>
                                             in (True, remove_all [audio_path] w8))))))))"

section \<open>Q and A chain and retrieval functions\<close>

text \<open>
  The \<open>while\<close> loop of \<open>get_late_chunked_text\<close>. It does not return when
  \<open>chunk_size - chunk_overlap\<close> is not positive and the text is not empty.
\<close>

partial_function (option) late_chunk_loop ::
  "pystr \<Rightarrow> int \<Rightarrow> int \<Rightarrow> int \<Rightarrow> document list \<Rightarrow> document list option" where
  "late_chunk_loop text chunk_size chunk_overlap start chunked_docs =
     (if start < int (length text)
      then late_chunk_loop text chunk_size chunk_overlap (start + (chunk_size - chunk_overlap))
             (chunked_docs @ [Document (py_slice text start (start + chunk_size))])
      else Some chunked_docs)"

definition doc_text :: "pyobj \<Rightarrow> pystr" where
  "doc_text doc =
     (case doc of
        Doc d \<Rightarrow> clean_text (Some (page_content d))
      | PageDict t \<Rightarrow> clean_text (Some t)
      | Other t \<Rightarrow> clean_text (Some t))"

fun late_chunk_docs ::
  "pyobj list \<Rightarrow> int \<Rightarrow> int \<Rightarrow> document list \<Rightarrow> document list option" where
  "late_chunk_docs [] chunk_size chunk_overlap chunked_docs = Some chunked_docs"
| "late_chunk_docs (doc # rest) chunk_size chunk_overlap chunked_docs =
     (case late_chunk_loop (doc_text doc) chunk_size chunk_overlap 0 chunked_docs of
        None \<Rightarrow> None
      | Some chunked_docs' \<Rightarrow> late_chunk_docs rest chunk_size chunk_overlap chunked_docs')"

definition get_late_chunked_text :: "pyobj list \<Rightarrow> int \<Rightarrow> int \<Rightarrow> document list option" where
  "get_late_chunked_text retrieved_docs chunk_size chunk_overlap =
     late_chunk_docs retrieved_docs chunk_size chunk_overlap []"

definition retrieve_documents ::
  "'s env \<Rightarrow> pystr \<Rightarrow> 's world \<Rightarrow> document list \<times> 's world" where
  "retrieve_documents env query w =
     (let (r, w1) =
            (case vector_store (st w) of
               Some vs \<Rightarrow> (Inr (Some vs), w)
             | None \<Rightarrow>
                 (case load_vector_store env index_folder w of
                    (Inl e, w') \<Rightarrow> (Inl e, w')
                  | (Inr None, w') \<Rightarrow> (Inr None, w')
                  | (Inr (Some vs), w') \<Rightarrow>
                      (Inr (Some vs), w'\<lparr>st := (st w')\<lparr>vector_store := Some vs\<rparr>\<rparr>)))
      in case r of
           Inl e \<Rightarrow> ([], w1)
         | Inr None \<Rightarrow> ([], w1)
         | Inr (Some vs) \<Rightarrow>
             (case similarity_search env vs query of
                Inl e \<Rightarrow> ([], emit [SimilaritySearch vs query] w1)
              | Inr retrieved_docs \<Rightarrow> (retrieved_docs, emit [SimilaritySearch vs query] w1)))"

definition no_documents_message :: pystr where
  "no_documents_message = of_ascii
     ''No relevant documents found. Please upload documents first or try a different question.''"

definition process_question ::
  "'s env \<Rightarrow> pystr \<Rightarrow> document list \<Rightarrow> 's world \<Rightarrow> (exn + pystr) \<times> 's world" where
  "process_question env question retrieved_docs w =
     (if retrieved_docs = [] then (Inr no_documents_message, w)
      else (qa_chain env retrieved_docs question, emit [QAChain retrieved_docs question] w))"

section \<open>Query improvement and processing\<close>

definition related_terms_prompt :: "pystr \<Rightarrow> pystr" where
  "related_terms_prompt query =
     of_ascii ''Provide a list of related search terms (separated by commas) for improving retrieval. ''
     @ of_ascii ''Do NOT change the meaning of the query: ''
     @ [39] @ query @ [39]"

definition fetch_related_terms :: "'s env \<Rightarrow> pystr \<Rightarrow> 's world \<Rightarrow> pystr \<times> 's world" where
  "fetch_related_terms env query w =
     (let w1 = emit [CohereGenerate (related_terms_prompt query)] w
      in case cohere_generate env (related_terms_prompt query) of
           Inl e \<Rightarrow> ([], w1)
         | Inr [] \<Rightarrow> ([], w1)
         | Inr (g # gs) \<Rightarrow>
             (py_join (of_ascii '', '')
                (map py_strip (filter (\<lambda>term. py_strip term \<noteq> [])
                                 (py_split_sep 44 (py_strip g)))),
              w1))"

definition process_input :: "'s env \<Rightarrow> pystr \<Rightarrow> 's world \<Rightarrow> (exn + pystr) \<times> 's world" where
  "process_input env question w =
     (if length (py_split question) < 15
      then (let (related_terms, w1) = fetch_related_terms env question w;
                combined_query = (if related_terms \<noteq> [] then question @ [32] @ related_terms
                                  else question);
                (retrieved_docs, w2) = retrieve_documents env combined_query w1
            in process_question env question retrieved_docs w2)
      else (let (retrieved_docs, w1) = retrieve_documents env question w
            in process_question env question retrieved_docs w1))"

section \<open>The sidebar: selecting a file type and uploading\<close>

text \<open>The body of the loop over the uploaded files: what one file adds to the content.\<close>

fun combine_files :: "'s env \<Rightarrow> file_type \<Rightarrow> upload list \<Rightarrow> pystr \<Rightarrow> exn + pystr" where
  "combine_files env ft [] combined_content = Inr combined_content"
| "combine_files env ft (file # rest) combined_content =
     (case ft of
        PDF \<Rightarrow> (case get_pdf_text env file of
                  Inl e \<Rightarrow> Inl e
                | Inr t \<Rightarrow> combine_files env ft rest (combined_content @ t @ [10]))
      | PPT \<Rightarrow> (case get_ppt_content env file of
                  Inl e \<Rightarrow> Inl e
                | Inr t \<Rightarrow> combine_files env ft rest (combined_content @ t @ [10]))
      | Excel \<Rightarrow> combine_files env ft rest
                   (combined_content @ load_excel_and_convert_to_csv env file @ [10])
      | _ \<Rightarrow> combine_files env ft rest combined_content)"

text \<open>
  The block that processes the uploaded PDF, PPT or Excel files. An exception here is not
  caught: the run of the script ends with it (\<open>Some e\<close>).
\<close>

definition process_uploaded_files ::
  "'s env \<Rightarrow> file_type \<Rightarrow> upload list option \<Rightarrow> 's world \<Rightarrow> exn option \<times> 's world" where
  "process_uploaded_files env ft uploaded_files w =
     (case uploaded_files of
        None \<Rightarrow> (None, w)
      | Some files \<Rightarrow>
          if ft \<noteq> Image \<and> files \<noteq> [] then
            (if \<not> documents_processed (st w) then
               (case clear_old_index w of
                  Inl e \<Rightarrow> (Some e, w)
                | Inr w1 \<Rightarrow>
                    (case combine_files env ft files [] of
                       Inl e \<Rightarrow> (Some e, w1)
                     | Inr combined_content \<Rightarrow>
                         (let w2 = w1\<lparr>st := (st w1)\<lparr>content := combined_content\<rparr>\<rparr>;
                              text_chunks = get_text_chunks env combined_content
                          in case get_vector_store env text_chunks index_folder w2 of
                               (Inl e, w3) \<Rightarrow> (Some e, w3)
                             | (Inr vs, w3) \<Rightarrow>
                                 (None, w3\<lparr>st := (st w3)\<lparr>vector_store := Some vs,
                                            documents_processed := True\<rparr>\<rparr>))))
             else (None, w))
          else (None, w))"

text \<open>
  One run of the sidebar: \<open>file_type\<close> is the selection, \<open>multi\<close> what the multi-file
  uploader of the PDF, PPT and Excel branches returns, \<open>single\<close> what the single-file
  uploader of the Image, Audio and Video branches returns.
\<close>

definition sidebar ::
  "'s env \<Rightarrow> file_type \<Rightarrow> upload list \<Rightarrow> upload option \<Rightarrow> 's world \<Rightarrow> exn option \<times> 's world" where
  "sidebar env ft multi single w =
     (case ft of
        PDF \<Rightarrow> process_uploaded_files env ft (Some multi) w
      | Audio \<Rightarrow>
          (let w1 = (if single \<noteq> None \<and> \<not> audio_processed (st w)
                     then (case process_audio env single w of
                             (True, w') \<Rightarrow> w'\<lparr>st := (st w')\<lparr>audio_processed := True\<rparr>\<rparr>
                           | (False, w') \<Rightarrow> w')
                     else w)
           in process_uploaded_files env ft None w1)
      | Video \<Rightarrow>
          (let w0 = (if video_processed (st w) = None
                     then w\<lparr>st := (st w)\<lparr>video_processed := Some False\<rparr>\<rparr> else w);
               w1 = (if single \<noteq> None \<and> video_processed (st w0) \<noteq> Some True
                     then (case process_video env single w0 of
                             (True, w') \<Rightarrow> w'\<lparr>st := (st w')\<lparr>video_processed := Some True\<rparr>\<rparr>
                           | (False, w') \<Rightarrow> w')
                     else w0)
           in process_uploaded_files env ft None w1)
      | PPT \<Rightarrow> process_uploaded_files env ft (Some multi) w
      | Excel \<Rightarrow> process_uploaded_files env ft (Some multi) w
      | Image \<Rightarrow>
          (case single of
             None \<Rightarrow> process_uploaded_files env ft None w
           | Some uploaded_file \<Rightarrow>
               (case image_open env uploaded_file of
                  Inl e \<Rightarrow> (Some e, w)
                | Inr img \<Rightarrow>
                    process_uploaded_files env ft None
                      (w\<lparr>st := (st w)\<lparr>uploaded_image := Some img\<rparr>\<rparr>))))"

section \<open>Observations on runs, and a sample environment\<close>

text \<open>The events a run added to the trace, and what they carry.\<close>

definition events_since :: "'s world \<Rightarrow> 's world \<Rightarrow> 's event list" where
  "events_since w w' = drop (length (trace w)) (trace w')"

fun embedded_texts :: "'s event list \<Rightarrow> pystr list" where
  "embedded_texts [] = []"
| "embedded_texts (FromTexts ts n # evs) = ts @ embedded_texts evs"
| "embedded_texts (ev # evs) = embedded_texts evs"

fun cohere_prompts :: "'s event list \<Rightarrow> pystr list" where
  "cohere_prompts [] = []"
| "cohere_prompts (CohereGenerate p # evs) = p # cohere_prompts evs"
| "cohere_prompts (ev # evs) = cohere_prompts evs"

fun search_queries :: "'s event list \<Rightarrow> pystr list" where
  "search_queries [] = []"
| "search_queries (SimilaritySearch vs q # evs) = q # search_queries evs"
| "search_queries (ev # evs) = search_queries evs"

fun chain_calls :: "'s event list \<Rightarrow> (document list \<times> pystr) list" where
  "chain_calls [] = []"
| "chain_calls (QAChain docs q # evs) = (docs, q) # chain_calls evs"
| "chain_calls (ev # evs) = chain_calls evs"

text \<open>The index path is taken by a regular file, which \<open>clear_old_index\<close> cannot delete.\<close>

definition index_is_file :: "'s world \<Rightarrow> bool" where
  "index_is_file w = (case fs w index_folder of Some (FileNode b) \<Rightarrow> True | _ \<Rightarrow> False)"

text \<open>A string with no whitespace at either end; a string within the Basic Multilingual Plane.\<close>

definition stripped :: "pystr \<Rightarrow> bool" where
  "stripped s \<longleftrightarrow> s = [] \<or> (\<not> py_isspace (hd s) \<and> \<not> py_isspace (last s))"

definition bmp_only :: "pystr \<Rightarrow> bool" where
  "bmp_only s = list_all (\<lambda>c. c \<le> 65535) s"

text \<open>
  A sample environment in which every service answers, with a vector store that is the
  list of the texts it was built from, and a session before any upload.
\<close>

definition sample_env :: "pystr list env" where
  "sample_env =
     \<lparr> cohere_generate = (\<lambda>p. Inr [of_ascii '' sales, income '']),
       similarity_search = (\<lambda>vs q. Inr (map Document vs)),
       qa_chain = (\<lambda>docs q. Inr (of_ascii ''42'')),
       from_texts = (\<lambda>ts n. Inr ts),
       save_local = (\<lambda>vs p. None),
       load_local = (\<lambda>p nd. case nd of IndexDir vs \<Rightarrow> Inr vs
                             | _ \<Rightarrow> Inl (Exception (of_ascii ''RuntimeError''))),
       split_text = (\<lambda>chunk_size chunk_overlap seps t. if t = [] then [] else [t]),
       pdf_page_texts = (\<lambda>f. Inr [getbuffer f]),
       ppt_shape_texts = (\<lambda>f. Inr [[Some (getbuffer f), None]]),
       excel_to_csv = (\<lambda>f. Inr (getbuffer f)),
       open_write = (\<lambda>p b. None),
       ffmpeg_run = (\<lambda>p nd. case nd of FileNode b \<Rightarrow> Inr (Some b)
                             | _ \<Rightarrow> Inl (Exception (of_ascii ''ffmpeg.Error''))),
       whisper_transcribe = (\<lambda>nd. case nd of FileNode b \<Rightarrow> Inr b
                                  | _ \<Rightarrow> Inl (Exception (of_ascii ''RuntimeError''))),
       image_open = (\<lambda>f. Inr (PILImage f)) \<rparr>"

definition fresh_world :: "pystr list world" where
  "fresh_world =
     \<lparr> st = \<lparr> content = [], uploaded_image = None, vector_store = None,
              documents_processed = False, audio_processed = False,
              video_processed = None \<rparr>,
       fs = (\<lambda>p. None),
       trace = [] \<rparr>"

text \<open>
  The chunks the loop of \<open>get_late_chunked_text\<close> appends when its step is positive, as a
  total function, and two readings of "a chunk shares characters with the next":
  \<open>shares_final_overlap\<close> compares the last \<open>chunk_overlap\<close> characters of a chunk with the
  first \<open>chunk_overlap\<close> characters of the next; \<open>shared_with_next\<close> says that what a chunk
  holds from offset \<open>chunk_size - chunk_overlap\<close> on is not empty and starts the next chunk,
  and is \<open>chunk_overlap\<close> long when the chunk is \<open>chunk_size\<close> long.
\<close>

function chunks_from :: "pystr \<Rightarrow> int \<Rightarrow> int \<Rightarrow> int \<Rightarrow> document list" where
  "chunks_from text chunk_size step start =
     (if start < int (length text) \<and> 0 < step
      then Document (py_slice text start (start + chunk_size)) #
             chunks_from text chunk_size step (start + step)
      else [])"
  by pat_completeness auto
termination
  by (relation "measure (\<lambda>(text, chunk_size, step, start). nat (int (length text) - start))") auto

definition shares_final_overlap :: "int \<Rightarrow> document \<Rightarrow> document \<Rightarrow> bool" where
  "shares_final_overlap chunk_overlap a b \<longleftrightarrow>
     drop (length (page_content a) - nat chunk_overlap) (page_content a) =
       take (nat chunk_overlap) (page_content b)"

definition shared_with_next :: "int \<Rightarrow> int \<Rightarrow> document \<Rightarrow> document \<Rightarrow> bool" where
  "shared_with_next chunk_size chunk_overlap a b \<longleftrightarrow>
     (let shared = drop (nat (chunk_size - chunk_overlap)) (page_content a)
      in shared \<noteq> [] \<and> take (length shared) (page_content b) = shared \<and>
         (length (page_content a) = nat chunk_size \<longrightarrow> length shared = nat chunk_overlap))"

text \<open>
  The transcription \<open>process_video\<close> (respectively \<open>process_audio\<close>) reaches: \<open>Some t\<close>
  when the upload is given and saved under a non-empty path, the audio is extracted (video
  only) and the transcription \<open>t\<close> is not empty; \<open>None\<close> when any of these steps fails.
\<close>

definition video_transcription :: "'s env \<Rightarrow> upload option \<Rightarrow> 's world \<Rightarrow> pystr option" where
  "video_transcription env uploaded_video w =
     (case uploaded_video of
        None \<Rightarrow> None
      | Some f \<Rightarrow>
          (case handle_file_upload env (Some f) w of
             (Inr (Some video_path), w1) \<Rightarrow>
               if video_path = [] then None
               else (case extract_audio env video_path w1 of
                       (Some audio_path, w2) \<Rightarrow>
                         if audio_path = [] then None
                         else (case transcribe_audio env audio_path w2 of
                                 Some transcription \<Rightarrow>
                                   if transcription = [] then None else Some transcription
                               | None \<Rightarrow> None)
                     | (None, w2) \<Rightarrow> None)
           | (r, w1) \<Rightarrow> None))"

definition audio_transcription :: "'s env \<Rightarrow> upload option \<Rightarrow> 's world \<Rightarrow> pystr option" where
  "audio_transcription env uploaded_audio w =
     (case uploaded_audio of
        None \<Rightarrow> None
      | Some f \<Rightarrow>
          (case handle_file_upload env (Some f) w of
             (Inr (Some audio_path), w1) \<Rightarrow>
               if audio_path = [] then None
               else (case transcribe_audio env audio_path w1 of
                       Some transcription \<Rightarrow>
                         if transcription = [] then None else Some transcription
                     | None \<Rightarrow> None)
           | (r, w1) \<Rightarrow> None))"

text \<open>Sample inputs: an upload, an environment whose Whisper model fails, a used session.\<close>

definition clip :: upload where
  "clip = \<lparr> name = of_ascii ''a.mp4'', getbuffer = [104, 105] \<rparr>"

definition deaf_env :: "pystr list env" where
  "deaf_env = sample_env\<lparr> whisper_transcribe :=
     (\<lambda>nd. Inl (Exception (of_ascii ''RuntimeError''))) \<rparr>"

definition used_world :: "pystr list world" where
  "used_world = fresh_world\<lparr> st := (st fresh_world)\<lparr> content := [111, 108, 100, 10] \<rparr> \<rparr>"

text \<open>Sample questions, sessions and an environment whose similarity search fails.\<close>

definition short_question :: pystr where
  "short_question = of_ascii ''total revenue''"

definition long_question :: pystr where
  "long_question = of_ascii ''a b c d e f g h i j k l m n o''"

definition indexed_world :: "pystr list world" where
  "indexed_world = fresh_world\<lparr> st := (st fresh_world)\<lparr> vector_store := Some [[100, 111, 99]] \<rparr> \<rparr>"

definition disk_world :: "pystr list world" where
  "disk_world = fresh_world\<lparr> fs := (\<lambda>p. if p = index_folder then Some (IndexDir [[100, 111, 99]]) else None) \<rparr>"

definition mute_env :: "pystr list env" where
  "mute_env = sample_env\<lparr> similarity_search :=
     (\<lambda>vs q. Inl (Exception (of_ascii ''ConnectionError''))) \<rparr>"

definition broken_disk_world :: "pystr list world" where
  "broken_disk_world = fresh_world\<lparr> fs := (\<lambda>p. if p = index_folder then Some Folder else None) \<rparr>"

text \<open>
  Two strings overlap when a non-empty end of the first is a beginning of the second.
\<close>

definition overlapping :: "pystr \<Rightarrow> pystr \<Rightarrow> bool" where
  "overlapping a b \<longleftrightarrow>
     list_ex (\<lambda>n. drop (length a - n) a = take n b) [1..<Suc (min (length a) (length b))]"

text \<open>
  Modelled from the spec: the text splitter is a class of the LangChain library, whose code
  is not under \<open>src/\<close>; the model takes what it returns as the parameter \<open>split_text\<close>.
  The spec describes chunking as splitting large text into smaller overlapping segments.
  For a splitter given an overlap that is positive and smaller than the chunk size this is
  read as: consecutive chunks overlap, and a text longer than one chunk gives at least two
  chunks.
\<close>

definition overlapping_splitter :: "'s env \<Rightarrow> bool" where
  "overlapping_splitter env \<longleftrightarrow>
     (\<forall>chunk_size chunk_overlap separators t.
        0 < chunk_overlap \<and> chunk_overlap < chunk_size \<longrightarrow>
        successively overlapping (split_text env chunk_size chunk_overlap separators t) \<and>
        (chunk_size < length t \<longrightarrow>
           2 \<le> length (split_text env chunk_size chunk_overlap separators t)))"

text \<open>
  A sample environment whose splitter cuts sliding windows, as the late-chunking loop does,
  and an upload with a transcription longer than one chunk.
\<close>

definition window_env :: "pystr list env" where
  "window_env = sample_env\<lparr> split_text :=
     (\<lambda>chunk_size chunk_overlap separators t.
        map page_content (chunks_from t (int chunk_size) (int chunk_size - int chunk_overlap) 0)) \<rparr>"

definition long_clip :: upload where
  "long_clip = \<lparr> name = of_ascii ''a.mp4'', getbuffer = replicate 600 97 \<rparr>"

text \<open>
  What the loop over the uploaded files takes from one file when the selection is PDF, PPT
  or Excel (for the other selections the loop adds nothing, and \<open>extract_text\<close> is not
  used), and the selections for which the multi-file uploader is shown.
\<close>

definition extract_text :: "'s env \<Rightarrow> file_type \<Rightarrow> upload \<Rightarrow> exn + pystr" where
  "extract_text env ft file =
     (case ft of
        PDF \<Rightarrow> get_pdf_text env file
      | PPT \<Rightarrow> get_ppt_content env file
      | Excel \<Rightarrow> Inr (load_excel_and_convert_to_csv env file)
      | _ \<Rightarrow> Inr [])"

definition document_type :: "file_type \<Rightarrow> bool" where
  "document_type ft \<longleftrightarrow> ft = PDF \<or> ft = PPT \<or> ft = Excel"

text \<open>Sample uploads: two documents and an image.\<close>

definition report :: upload where
  "report = \<lparr> name = of_ascii ''r.pdf'', getbuffer = [104, 105] \<rparr>"

definition minutes :: upload where
  "minutes = \<lparr> name = of_ascii ''m.pdf'', getbuffer = [111, 107] \<rparr>"


section \<open>Properties\<close>

subsection \<open>Cleaning text before embedding\<close>

lemma dropWhile_hd: "dropWhile P xs \<noteq> [] \<Longrightarrow> \<not> P (hd (dropWhile P xs))"
  by (simp add: hd_dropWhile)

lemma last_dropWhile: "dropWhile P xs \<noteq> [] \<Longrightarrow> last (dropWhile P xs) = last xs"
  by (induction xs) (auto split: if_splits)

lemma py_strip_hd: "py_strip s \<noteq> [] \<Longrightarrow> \<not> py_isspace (hd (py_strip s))"
proof -
  assume ne: "py_strip s \<noteq> []"
  let ?t = "dropWhile py_isspace s"
  let ?u = "dropWhile py_isspace (rev ?t)"
  have u: "?u \<noteq> []" using ne by (simp add: py_strip_def)
  have t: "?t \<noteq> []"
  proof
    assume "?t = []"
    with u show False by simp
  qed
  have "hd (py_strip s) = last ?u" using u by (simp add: py_strip_def hd_rev)
  also have "\<dots> = last (rev ?t)" using u by (rule last_dropWhile)
  also have "\<dots> = hd ?t" using t by (simp add: last_rev)
  finally show ?thesis using t by (simp add: hd_dropWhile)
qed

lemma py_strip_last: "py_strip s \<noteq> [] \<Longrightarrow> \<not> py_isspace (last (py_strip s))"
proof -
  assume ne: "py_strip s \<noteq> []"
  let ?u = "dropWhile py_isspace (rev (dropWhile py_isspace s))"
  have u: "?u \<noteq> []" using ne by (simp add: py_strip_def)
  have "last (py_strip s) = hd ?u" using u by (simp add: py_strip_def last_rev)
  then show ?thesis using u by (simp add: hd_dropWhile)
qed

lemma py_strip_fixed:
  assumes "s = [] \<or> (\<not> py_isspace (hd s) \<and> \<not> py_isspace (last s))"
  shows "py_strip s = s"
proof (cases "s = []")
  case True then show ?thesis by (simp add: py_strip_def)
next
  case False
  with assms have h: "\<not> py_isspace (hd s)" and l: "\<not> py_isspace (last s)" by auto
  have 1: "dropWhile py_isspace s = s" using False h by (cases s) auto
  have 2: "dropWhile py_isspace (rev s) = rev s" using False l by (cases "rev s") (auto simp: last_rev[symmetric] simp del: last_rev)
  show ?thesis by (simp add: py_strip_def 1 2)
qed

lemma py_strip_idem: "py_strip (py_strip s) = py_strip s"
  by (rule py_strip_fixed) (use py_strip_hd py_strip_last in blast)

lemma set_py_strip: "set (py_strip s) \<subseteq> set s"
proof
  fix x assume "x \<in> set (py_strip s)"
  then have "x \<in> set (dropWhile py_isspace (rev (dropWhile py_isspace s)))"
    by (simp add: py_strip_def)
  then have "x \<in> set (rev (dropWhile py_isspace s))" by (rule set_dropWhileD)
  then have "x \<in> set (dropWhile py_isspace s)" by simp
  then show "x \<in> set s" by (rule set_dropWhileD)
qed


lemma stripped_py_strip: "stripped (py_strip s)"
  unfolding stripped_def using py_strip_hd py_strip_last by blast

lemma clean_text_stripped: "stripped (clean_text (Some s))"
  by (simp add: clean_text_def stripped_py_strip) (simp add: stripped_def)

lemma clean_text_bmp: "valid_str s \<Longrightarrow> bmp_only (clean_text (Some s))"
proof -
  assume v: "valid_str s"
  have "\<forall>c \<in> set (clean_text (Some s)). c \<le> 65535"
  proof
    fix c assume "c \<in> set (clean_text (Some s))"
    then have "s \<noteq> []" and "c \<in> set (py_strip (filter (\<lambda>c. \<not> (65536 \<le> c \<and> c \<le> 1114111)) (encode_replace_decode s)))"
      by (auto simp: clean_text_def split: if_splits)
    then have c: "c \<in> set (filter (\<lambda>c. \<not> (65536 \<le> c \<and> c \<le> 1114111)) (encode_replace_decode s))"
      using set_py_strip by blast
    then have "c \<in> set (encode_replace_decode s)" by simp
    then have "c \<le> 1114111" using v
      by (auto simp: encode_replace_decode_def valid_str_def list_all_iff split: if_splits)
    with c show "c \<le> 65535" by auto
  qed
  then show ?thesis by (simp add: bmp_only_def list_all_iff)
qed

lemma clean_text_fixed:
  assumes "stripped s" and "\<forall>c \<in> set s. \<not> is_surrogate c \<and> \<not> (65536 \<le> c \<and> c \<le> 1114111)"
  shows "clean_text (Some s) = s"
proof -
  have 1: "encode_replace_decode s = s"
    using assms(2) by (simp add: encode_replace_decode_def map_idI)
  have 2: "filter (\<lambda>c. \<not> (65536 \<le> c \<and> c \<le> 1114111)) s = s"
    using assms(2) by (simp add: filter_id_conv)
  have 3: "py_strip s = s" using assms(1) by (simp add: py_strip_fixed stripped_def)
  show ?thesis
  proof (cases "s = []")
    case True
    then show ?thesis by (simp add: clean_text_def)
  next
    case False
    then have "clean_text (Some s) =
        py_strip (filter (\<lambda>c. \<not> (65536 \<le> c \<and> c \<le> 1114111)) (encode_replace_decode s))"
      by (simp add: clean_text_def)
    also have "\<dots> = s" by (simp only: 1 2 3)
    finally show ?thesis .
  qed
qed

lemma clean_text_chars:
  "c \<in> set (clean_text (Some s)) \<Longrightarrow> \<not> is_surrogate c \<and> \<not> (65536 \<le> c \<and> c \<le> 1114111)"
proof -
  assume "c \<in> set (clean_text (Some s))"
  then have "c \<in> set (py_strip (filter (\<lambda>c. \<not> (65536 \<le> c \<and> c \<le> 1114111)) (encode_replace_decode s)))"
    by (auto simp: clean_text_def split: if_splits)
  then have c: "c \<in> set (filter (\<lambda>c. \<not> (65536 \<le> c \<and> c \<le> 1114111)) (encode_replace_decode s))"
    using set_py_strip by blast
  then show ?thesis
    by (auto simp: encode_replace_decode_def is_surrogate_def split: if_splits)
qed

lemma clean_text_idem: "clean_text (Some (clean_text (Some s))) = clean_text (Some s)"
  by (rule clean_text_fixed) (use clean_text_stripped clean_text_chars in blast)+

lemma events_since_emit: "events_since w (emit evs w) = evs"
  by (simp add: events_since_def emit_def)

lemma trace_get_vector_store:
  "trace (snd (get_vector_store env cs p w)) =
     trace w @ FromTexts (map (\<lambda>c. clean_text (Some c)) cs) False #
       (case from_texts env (map (\<lambda>c. clean_text (Some c)) cs) False of
          Inl e \<Rightarrow> [] | Inr vs \<Rightarrow> [SaveLocal p])"
  by (simp add: get_vector_store_def Let_def emit_def split: sum.splits option.splits)

lemma embedded_get_vector_store:
  "embedded_texts (events_since w (snd (get_vector_store env cs p w))) =
     map (\<lambda>c. clean_text (Some c)) cs"
  by (simp add: events_since_def trace_get_vector_store split: sum.splits)

text \<open>
  Claim C10. \<open>clean_text\<close> is idempotent and normalizing: on \<open>None\<close> and on the empty
  string it returns the empty string; applying it twice gives what applying it once gives;
  its result has no whitespace at either end; on a well-formed string its result has no
  character above U+FFFF. Every text that \<open>get_vector_store\<close> passes to
  \<open>FAISS.from_texts\<close> is a result of \<open>clean_text\<close> and has these properties.
\<close>

theorem clean_text_normalizing:
  "clean_text None = [] \<and> clean_text (Some []) = [] \<and>
   clean_text (Some (clean_text (Some s))) = clean_text (Some s) \<and>
   stripped (clean_text (Some s)) \<and>
   (valid_str s \<longrightarrow> bmp_only (clean_text (Some s))) \<and>
   list_all (\<lambda>t. stripped t \<and> clean_text (Some t) = t)
     (embedded_texts (events_since w (snd (get_vector_store env text_chunks path w)))) \<and>
   (list_all valid_str text_chunks \<longrightarrow>
      list_all bmp_only
        (embedded_texts (events_since w (snd (get_vector_store env text_chunks path w)))))"
proof -
  have a: "clean_text None = [] \<and> clean_text (Some []) = []" by (simp add: clean_text_def)
  have b: "list_all (\<lambda>t. stripped t \<and> clean_text (Some t) = t)
     (map (\<lambda>c. clean_text (Some c)) text_chunks)"
    by (simp add: list_all_iff clean_text_stripped clean_text_idem)
  have c: "list_all valid_str text_chunks \<longrightarrow>
      list_all bmp_only (map (\<lambda>c. clean_text (Some c)) text_chunks)"
    by (simp add: list_all_iff clean_text_bmp)
  show ?thesis
    using a b c clean_text_idem clean_text_stripped clean_text_bmp
    by (simp add: embedded_get_vector_store)
qed


theorem clean_text_normalizing_witness:
  "valid_str [32, 72, 128512, 55357, 105, 10] \<and>
   clean_text (Some [32, 72, 128512, 55357, 105, 10]) = [72, 63, 105] \<and>
   clean_text (Some [72, 63, 105]) = [72, 63, 105] \<and>
   stripped [72, 63, 105] \<and> bmp_only [72, 63, 105] \<and>
   embedded_texts (events_since fresh_world
     (snd (get_vector_store sample_env [[32, 72, 128512, 55357, 105, 10]] index_folder fresh_world)))
     = [[72, 63, 105]]"
  using clean_text_normalizing [of "[32, 72, 128512, 55357, 105, 10]" fresh_world sample_env
      "[[32, 72, 128512, 55357, 105, 10]]" index_folder]
  by (simp add: valid_str_def clean_text_def encode_replace_decode_def is_surrogate_def
      py_strip_def py_isspace_def stripped_def bmp_only_def events_since_def
      get_vector_store_def emit_def sample_env_def fresh_world_def Let_def)

subsection \<open>The late-chunking loop\<close>

lemma py_slice_nonneg:
  "0 \<le> a \<Longrightarrow> 0 \<le> n \<Longrightarrow> py_slice xs a (a + n) = take (nat n) (drop (nat a) xs)"
  by (auto simp: py_slice_def slice_bound_def Let_def min_def nat_add_distrib)

lemma shared_take_drop:
  fixes xs :: "'a list"
  assumes "0 < k" "k < n" "s + k < length xs"
  shows "drop k (take n (drop s xs)) \<noteq> []"
    and "take (length (drop k (take n (drop s xs)))) (take n (drop (s + k) xs)) = drop k (take n (drop s xs))"
    and "length (take n (drop s xs)) = n \<Longrightarrow> length (drop k (take n (drop s xs))) = n - k"
proof -
  show "drop k (take n (drop s xs)) \<noteq> []" using assms by simp
  have "drop k (take n (drop s xs)) = take (n - k) (drop (s + k) xs)"
    by (simp add: drop_take add.commute)
  then show "take (length (drop k (take n (drop s xs)))) (take n (drop (s + k) xs)) = drop k (take n (drop s xs))"
    by (simp add: min_def)
  show "length (take n (drop s xs)) = n \<Longrightarrow> length (drop k (take n (drop s xs))) = n - k"
    by simp
qed

lemma shared_slices:
  assumes "0 < step" "step < chunk_size" "0 \<le> start" "start + step < int (length t)"
  shows "shared_with_next chunk_size (chunk_size - step)
          (Document (py_slice t start (start + chunk_size)))
          (Document (py_slice t (start + step) (start + step + chunk_size)))"
proof -
  have sz: "0 \<le> chunk_size" using assms(1,2) by linarith
  have ss: "0 \<le> start + step" using assms(1,3) by linarith
  have a: "py_slice t start (start + chunk_size) = take (nat chunk_size) (drop (nat start) t)"
    using assms(3) sz by (rule py_slice_nonneg)
  have n: "nat (start + step) = nat start + nat step"
    using assms(1,3) by (simp add: nat_add_distrib)
  have b: "py_slice t (start + step) (start + step + chunk_size) =
      take (nat chunk_size) (drop (nat start + nat step) t)"
    using py_slice_nonneg[OF ss sz, of t] by (simp only: n)
  have k1: "0 < nat step" using assms(1) by simp
  have k2: "nat step < nat chunk_size" using assms(1,2) by linarith
  have k3: "nat start + nat step < length t" using assms(4) n ss by linarith
  have c: "nat (chunk_size - (chunk_size - step)) = nat step" by simp
  have d: "nat (chunk_size - step) = nat chunk_size - nat step" using assms(1,2) by linarith
  note f = shared_take_drop[OF k1 k2 k3]
  show ?thesis
    unfolding shared_with_next_def Let_def a b c d document.sel
    using f by blast
qed

declare chunks_from.simps [simp del]

lemma chunks_from_rec:
  "start < int (length t) \<Longrightarrow> 0 < step \<Longrightarrow>
   chunks_from t chunk_size step start =
     Document (py_slice t start (start + chunk_size)) # chunks_from t chunk_size step (start + step)"
  by (subst chunks_from.simps) simp

lemma chunks_from_stop:
  "\<not> start < int (length t) \<Longrightarrow> chunks_from t chunk_size step start = []"
  by (subst chunks_from.simps) simp

lemma late_chunk_loop_step:
  "0 < step \<Longrightarrow>
   late_chunk_loop t chunk_size (chunk_size - step) start acc =
     Some (acc @ chunks_from t chunk_size step start)"
proof (induction t chunk_size step start arbitrary: acc rule: chunks_from.induct)
  case (1 t chunk_size step start)
  show ?case
  proof (cases "start < int (length t)")
    case True
    have "late_chunk_loop t chunk_size (chunk_size - step) start acc =
        late_chunk_loop t chunk_size (chunk_size - step) (start + step)
          (acc @ [Document (py_slice t start (start + chunk_size))])"
      using True by (subst late_chunk_loop.simps) simp
    also have "\<dots> = Some ((acc @ [Document (py_slice t start (start + chunk_size))]) @
        chunks_from t chunk_size step (start + step))"
      using True "1.prems" by (intro "1.IH") auto
    finally show ?thesis using True "1.prems" by (simp add: chunks_from_rec)
  next
    case False
    then show ?thesis
      by (subst late_chunk_loop.simps) (simp add: chunks_from_stop)
  qed
qed

lemma late_chunk_loop_chunks_from:
  "0 < chunk_size - chunk_overlap \<Longrightarrow>
   late_chunk_loop t chunk_size chunk_overlap start acc =
     Some (acc @ chunks_from t chunk_size (chunk_size - chunk_overlap) start)"
  using late_chunk_loop_step [of "chunk_size - chunk_overlap" t chunk_size start acc] by simp

lemma chunks_from_successively:
  assumes "0 < step" "step < chunk_size" "0 \<le> start"
  shows "successively (shared_with_next chunk_size (chunk_size - step))
           (chunks_from t chunk_size step start)"
  using assms
proof (induction t chunk_size step start rule: chunks_from.induct)
  case (1 t chunk_size step start)
  show ?case
  proof (cases "start < int (length t)")
    case False
    then show ?thesis by (simp add: chunks_from_stop)
  next
    case True
    have nn: "0 \<le> start + step" using "1.prems"(1,3) by linarith
    have IH: "successively (shared_with_next chunk_size (chunk_size - step))
           (chunks_from t chunk_size step (start + step))"
      using True "1.prems"(1,2) nn by (intro "1.IH") auto
    have e0: "chunks_from t chunk_size step start =
          Document (py_slice t start (start + chunk_size)) # chunks_from t chunk_size step (start + step)"
      using True "1.prems"(1) by (rule chunks_from_rec)
    show ?thesis
    proof (cases "start + step < int (length t)")
      case False
      then have "chunks_from t chunk_size step (start + step) = []"
        by (rule chunks_from_stop)
      then show ?thesis by (simp add: e0)
    next
      case next_in: True
      have e: "chunks_from t chunk_size step (start + step) =
          Document (py_slice t (start + step) (start + step + chunk_size)) #
            chunks_from t chunk_size step (start + step + step)"
        using next_in "1.prems"(1) by (rule chunks_from_rec)
      have sh: "shared_with_next chunk_size (chunk_size - step)
          (Document (py_slice t start (start + chunk_size)))
          (Document (py_slice t (start + step) (start + step + chunk_size)))"
        using "1.prems" next_in by (rule shared_slices)
      show ?thesis
        using IH sh unfolding e0 e by simp
    qed
  qed
qed

lemma chunks_from_nth:
  "0 < step \<Longrightarrow> i < length (chunks_from t chunk_size step start) \<Longrightarrow>
   chunks_from t chunk_size step start ! i =
     Document (py_slice t (start + int i * step) (start + int i * step + chunk_size))"
proof (induction i arbitrary: start)
  case 0
  have "start < int (length t)"
  proof (rule ccontr)
    assume "\<not> start < int (length t)"
    then have "chunks_from t chunk_size step start = []" by (rule chunks_from_stop)
    with "0.prems"(2) show False by simp
  qed
  then show ?case using "0.prems"(1) by (simp add: chunks_from_rec)
next
  case (Suc i)
  have s: "start < int (length t)"
  proof (rule ccontr)
    assume "\<not> start < int (length t)"
    then have "chunks_from t chunk_size step start = []" by (rule chunks_from_stop)
    with Suc.prems(2) show False by simp
  qed
  have e: "chunks_from t chunk_size step start =
      Document (py_slice t start (start + chunk_size)) # chunks_from t chunk_size step (start + step)"
    using s Suc.prems(1) by (rule chunks_from_rec)
  have l: "i < length (chunks_from t chunk_size step (start + step))"
    using Suc.prems(2) by (simp add: e)
  have a: "start + step + int i * step = start + int (Suc i) * step"
    by (simp add: algebra_simps)
  show ?case
    using Suc.IH[OF Suc.prems(1) l] by (simp add: e a)
qed

lemma get_late_chunked_text_single:
  "0 < chunk_size - chunk_overlap \<Longrightarrow>
   get_late_chunked_text [doc] chunk_size chunk_overlap =
     Some (chunks_from (doc_text doc) chunk_size (chunk_size - chunk_overlap) 0)"
  by (simp add: get_late_chunked_text_def late_chunk_loop_chunks_from)

lemma sample_late_chunks:
  "get_late_chunked_text [Doc (Document [97, 98, 99, 100, 101])] 4 2 =
     Some [Document [97, 98, 99, 100], Document [99, 100, 101], Document [101]]"
  by (simp add: get_late_chunked_text_single doc_text_def clean_text_def
      encode_replace_decode_def is_surrogate_def py_strip_def py_isspace_def
      chunks_from_rec chunks_from_stop py_slice_def slice_bound_def)

lemma overlappingI:
  "0 < n \<Longrightarrow> n \<le> length a \<Longrightarrow> n \<le> length b \<Longrightarrow> drop (length a - n) a = take n b \<Longrightarrow>
   overlapping a b"
  unfolding overlapping_def list_ex_iff by (rule bexI[of _ n]) auto

lemma shared_with_next_overlapping:
  assumes "shared_with_next chunk_size chunk_overlap a b"
  shows "overlapping (page_content a) (page_content b)"
proof -
  let ?k = "nat (chunk_size - chunk_overlap)"
  let ?x = "page_content a" and ?y = "page_content b"
  from assms have ne: "drop ?k ?x \<noteq> []"
    and tk: "take (length (drop ?k ?x)) ?y = drop ?k ?x"
    by (simp_all add: shared_with_next_def Let_def)
  from ne have k: "?k < length ?x" by simp
  let ?n = "length ?x - ?k"
  have n0: "0 < ?n" using k by simp
  have "length (take ?n ?y) = ?n" using tk by (metis length_drop)
  then have ny: "?n \<le> length ?y" by simp
  have "drop (length ?x - ?n) ?x = take ?n ?y" using tk k by simp
  then show ?thesis using n0 ny by (intro overlappingI[of ?n]) auto
qed

lemma chunks_from_length_iff:
  "0 < step \<Longrightarrow>
   i < length (chunks_from t chunk_size step start) \<longleftrightarrow> start + int i * step < int (length t)"
proof (induction i arbitrary: start)
  case 0
  show ?case
  proof (cases "start < int (length t)")
    case True
    then show ?thesis using 0 by (simp add: chunks_from_rec)
  next
    case False
    then show ?thesis by (simp add: chunks_from_stop)
  qed
next
  case (Suc i)
  have a: "start + step + int i * step = start + int (Suc i) * step"
    by (simp add: algebra_simps)
  show ?case
  proof (cases "start < int (length t)")
    case True
    then show ?thesis using Suc.IH[OF Suc.prems, of "start + step"] Suc.prems
      by (simp add: chunks_from_rec a del: of_nat_Suc)
  next
    case False
    have "0 \<le> int (Suc i) * step" using Suc.prems by simp
    then have "\<not> start + int (Suc i) * step < int (length t)" using False by linarith
    then show ?thesis using False by (simp add: chunks_from_stop del: of_nat_Suc)
  qed
qed

lemma late_chunk_docs_chunks:
  "0 < chunk_size - chunk_overlap \<Longrightarrow>
   late_chunk_docs docs chunk_size chunk_overlap acc =
     Some (acc @ concat (map (\<lambda>doc. chunks_from (doc_text doc) chunk_size
                                        (chunk_size - chunk_overlap) 0) docs))"
  by (induction docs arbitrary: acc) (simp_all add: late_chunk_loop_chunks_from)

lemma window_env_overlapping: "overlapping_splitter window_env"
  unfolding overlapping_splitter_def
proof (intro allI impI conjI)
  fix chunk_size chunk_overlap :: nat and separators :: "pystr list" and t :: pystr
  assume a: "0 < chunk_overlap \<and> chunk_overlap < chunk_size"
  let ?step = "int chunk_size - int chunk_overlap"
  let ?chunks = "chunks_from t (int chunk_size) ?step 0"
  have sp: "split_text window_env chunk_size chunk_overlap separators t = map page_content ?chunks"
    by (simp add: window_env_def)
  have step: "0 < ?step" "?step < int chunk_size" using a by auto
  have "successively (shared_with_next (int chunk_size) (int chunk_size - ?step)) ?chunks"
    using step by (intro chunks_from_successively) auto
  then have "successively (\<lambda>a b. overlapping (page_content a) (page_content b)) ?chunks"
    by (rule successively_mono) (auto intro: shared_with_next_overlapping)
  then show "successively overlapping (split_text window_env chunk_size chunk_overlap separators t)"
    by (simp add: sp successively_map)
  assume l: "chunk_size < length t"
  have "1 < length ?chunks"
    using chunks_from_length_iff[OF step(1), of 1 t "int chunk_size" 0] a l by simp
  then show "2 \<le> length (split_text window_env chunk_size chunk_overlap separators t)"
    by (simp add: sp)
qed

lemma sample_boundary_chunks:
  "get_late_chunked_text [Doc (Document [97, 98, 99, 100, 101]), Doc (Document [120, 121, 122])] 4 2 =
     Some [Document [97, 98, 99, 100], Document [99, 100, 101], Document [101],
           Document [120, 121, 122], Document [122]]"
  by (simp add: get_late_chunked_text_def late_chunk_docs_chunks doc_text_def clean_text_def
      encode_replace_decode_def is_surrogate_def py_strip_def py_isspace_def
      chunks_from_rec chunks_from_stop py_slice_def slice_bound_def
      del: late_chunk_docs.simps)

text \<open>
  Claim C3 as stated fails. With chunk size 4 and overlap 2 the text \<open>abcde\<close> gives the
  chunks \<open>abcd\<close>, \<open>cde\<close>, \<open>e\<close>; the chunk \<open>cde\<close> is not the last, and its final two
  characters \<open>de\<close> are not shared with the next chunk \<open>e\<close>. With a second document
  \<open>xyz\<close> the chunks are \<open>abcd\<close>, \<open>cde\<close>, \<open>e\<close>, \<open>xyz\<close>, \<open>z\<close>; the chunk \<open>e\<close> is not the
  last, and shares nothing with the next chunk \<open>xyz\<close>, which starts another document.
\<close>

theorem late_chunking_final_overlap_counterexample:
  "get_late_chunked_text [Doc (Document [97, 98, 99, 100, 101])] 4 2 =
     Some [Document [97, 98, 99, 100], Document [99, 100, 101], Document [101]] \<and>
   \<not> successively (shares_final_overlap 2)
       [Document [97, 98, 99, 100], Document [99, 100, 101], Document [101]] \<and>
   get_late_chunked_text [Doc (Document [97, 98, 99, 100, 101]), Doc (Document [120, 121, 122])] 4 2 =
     Some [Document [97, 98, 99, 100], Document [99, 100, 101], Document [101],
           Document [120, 121, 122], Document [122]] \<and>
   \<not> overlapping [101] [120, 121, 122]"
  by (simp add: sample_late_chunks sample_boundary_chunks shares_final_overlap_def
      overlapping_def)

subsection \<open>Audio and video uploads\<close>

lemma handle_file_upload_frame:
  "handle_file_upload env u w = (r, w') \<Longrightarrow> st w' = st w \<and> trace w' = trace w"
  by (auto simp: handle_file_upload_def makedirs_def Let_def
      split: option.splits sum.splits node.splits)

lemma extract_audio_frame:
  "extract_audio env p w = (r, w') \<Longrightarrow> st w' = st w \<and> trace w' = trace w"
  by (auto simp: extract_audio_def Let_def split: option.splits sum.splits if_splits)

lemma os_remove_frame: "os_remove p w = Some w' \<Longrightarrow> st w' = st w \<and> trace w' = trace w"
  by (auto simp: os_remove_def split: option.splits node.splits)

lemma remove_fold_frame:
  "st (fst (foldl (\<lambda>(w', ok) p. if ok then (case os_remove p w' of
                                             None \<Rightarrow> (w', False)
                                           | Some w'' \<Rightarrow> (w'', True))
                               else (w', ok)) (w, ok) ps)) = st w \<and>
   trace (fst (foldl (\<lambda>(w', ok) p. if ok then (case os_remove p w' of
                                             None \<Rightarrow> (w', False)
                                           | Some w'' \<Rightarrow> (w'', True))
                               else (w', ok)) (w, ok) ps)) = trace w"
proof (induction ps arbitrary: w ok)
  case Nil
  then show ?case by simp
next
  case (Cons p ps)
  show ?case
  proof (cases "ok")
    case False
    then show ?thesis using Cons.IH[of w False] by simp
  next
    case True
    show ?thesis
    proof (cases "os_remove p w")
      case None
      then show ?thesis using True Cons.IH[of w False] by simp
    next
      case (Some w'')
      then show ?thesis using True Cons.IH[of w'' True] os_remove_frame[OF Some] by simp
    qed
  qed
qed

lemma remove_all_frame: "st (remove_all ps w) = st w \<and> trace (remove_all ps w) = trace w"
  unfolding remove_all_def by (rule remove_fold_frame)

lemma clear_old_index_Inr:
  "clear_old_index w = Inr w' \<Longrightarrow>
   st w' = st w \<and>
   trace w' = trace w @ (if fs w index_folder \<noteq> None then [Rmtree index_folder] else []) \<and>
   fs w' = (fs w)(index_folder := None)"
  by (auto simp: clear_old_index_def emit_def split: option.splits node.splits)

lemma clear_old_index_Inl: "clear_old_index w = Inl e \<Longrightarrow> index_is_file w"
  by (auto simp: clear_old_index_def index_is_file_def split: option.splits node.splits)

lemma clear_old_index_succeeds: "\<not> index_is_file w \<Longrightarrow> \<exists>w'. clear_old_index w = Inr w'"
  by (auto simp: clear_old_index_def index_is_file_def split: option.splits node.splits)

lemma clear_old_index_not_file: "clear_old_index w = Inr w' \<Longrightarrow> \<not> index_is_file w"
  by (auto simp: clear_old_index_def index_is_file_def split: option.splits node.splits)

lemma index_is_file_cong: "fs w' index_folder = fs w index_folder \<Longrightarrow> index_is_file w' = index_is_file w"
  by (simp add: index_is_file_def)

lemma upload_path_not_index: "os_path_join UPLOAD_FOLDER n \<noteq> index_folder"
proof
  assume "os_path_join UPLOAD_FOLDER n = index_folder"
  then have "hd (os_path_join UPLOAD_FOLDER n) = 118"
    by (simp add: index_folder_def of_ascii_def)
  then show False
    by (auto simp: os_path_join_def UPLOAD_FOLDER_def of_ascii_def split: if_splits)
qed

lemma audio_path_not_index: "p @ of_ascii ''.wav'' \<noteq> index_folder"
proof
  assume "p @ of_ascii ''.wav'' = index_folder"
  then have "last (p @ of_ascii ''.wav'') = last index_folder" by simp
  then show False by (simp add: index_folder_def of_ascii_def)
qed

lemma upload_folder_not_index: "UPLOAD_FOLDER \<noteq> index_folder"
  by (simp add: UPLOAD_FOLDER_def index_folder_def of_ascii_def)

lemma handle_file_upload_index:
  "handle_file_upload env u w = (r, w') \<Longrightarrow> fs w' index_folder = fs w index_folder"
  using upload_path_not_index[symmetric] upload_folder_not_index[symmetric]
  by (auto simp: handle_file_upload_def makedirs_def Let_def
      split: option.splits sum.splits node.splits)

lemma extract_audio_index:
  "extract_audio env p w = (r, w') \<Longrightarrow> fs w' index_folder = fs w index_folder"
  using audio_path_not_index[symmetric]
  by (auto simp: extract_audio_def Let_def split: option.splits sum.splits if_splits)

lemma get_vector_store_st: "st (snd (get_vector_store env cs p w)) = st w"
  by (simp add: get_vector_store_def Let_def emit_def split: sum.splits option.splits)

lemma get_vector_store_result:
  "fst (get_vector_store env cs p w) =
     (case from_texts env (map (\<lambda>c. clean_text (Some c)) cs) False of
        Inl e \<Rightarrow> Inl e
      | Inr vs \<Rightarrow> (case save_local env vs p of Some e \<Rightarrow> Inl e | None \<Rightarrow> Inr vs))"
  by (simp add: get_vector_store_def Let_def split: sum.splits option.splits)

lemma process_video_not_transcribed:
  assumes "video_transcription env up w = None"
  shows "fst (process_video env up w) = False \<and>
         st (snd (process_video env up w)) = st w \<and>
         trace (snd (process_video env up w)) = trace w"
proof (cases up)
  case None
  then show ?thesis by (simp add: process_video_def)
next
  case (Some f)
  obtain r w1 where h: "handle_file_upload env (Some f) w = (r, w1)" by (cases "handle_file_upload env (Some f) w")
  note f1 = handle_file_upload_frame[OF h]
  show ?thesis
  proof (cases "\<exists>vp. r = Inr (Some vp) \<and> vp \<noteq> []")
    case False
    then show ?thesis using Some h f1
      by (auto simp: process_video_def split: sum.splits option.splits)
  next
    case True
    then obtain vp where r: "r = Inr (Some vp)" and vp: "vp \<noteq> []" by blast
    obtain a w2 where x: "extract_audio env vp w1 = (a, w2)" by (cases "extract_audio env vp w1")
    note f2 = extract_audio_frame[OF x]
    show ?thesis
    proof (cases "\<exists>ap. a = Some ap \<and> ap \<noteq> []")
      case False
      then show ?thesis using Some h f1 r vp x f2
        by (auto simp: process_video_def split: option.splits)
    next
      case True
      then obtain ap where a: "a = Some ap" and ap: "ap \<noteq> []" by blast
      have "transcribe_audio env ap w2 = None \<or> transcribe_audio env ap w2 = Some []"
        using assms Some h r vp x a ap
        by (auto simp: video_transcription_def split: option.splits if_splits)
      then show ?thesis using Some h f1 r vp x f2 a ap
        by (auto simp: process_video_def)
    qed
  qed
qed

lemma process_video_transcribed:
  assumes "video_transcription env up w = Some t"
  obtains w3 ps where
    "st w3 = (st w)\<lparr>content := content (st w) @ t @ [10]\<rparr>"
    "trace w3 = trace w" "fs w3 index_folder = fs w index_folder"
    "process_video env up w =
       (case clear_old_index w3 of
          Inl e \<Rightarrow> (False, w3)
        | Inr w4 \<Rightarrow>
            (case get_vector_store env (get_text_chunks env (content (st w) @ t @ [10]))
                    index_folder w4 of
               (Inl e, w5) \<Rightarrow> (False, w5)
             | (Inr vs, w5) \<Rightarrow>
                 (True, remove_all ps
                    (w5\<lparr>st := (st w5)\<lparr>vector_store := Some vs,
                                            documents_processed := True\<rparr>\<rparr>))))"
proof -
  from assms obtain f where up: "up = Some f"
    by (cases up) (auto simp: video_transcription_def)
  obtain r w1 where h: "handle_file_upload env (Some f) w = (r, w1)" by (cases "handle_file_upload env (Some f) w")
  note f1 = handle_file_upload_frame[OF h] and i1 = handle_file_upload_index[OF h]
  from assms up h obtain vp where r: "r = Inr (Some vp)" and vp: "vp \<noteq> []"
    by (auto simp: video_transcription_def split: sum.splits option.splits if_splits)
  obtain a w2 where x: "extract_audio env vp w1 = (a, w2)" by (cases "extract_audio env vp w1")
  note f2 = extract_audio_frame[OF x] and i2 = extract_audio_index[OF x]
  from assms up h r vp x obtain ap where a: "a = Some ap" and ap: "ap \<noteq> []"
    by (auto simp: video_transcription_def split: option.splits if_splits)
  from assms up h r vp x a ap have tr: "transcribe_audio env ap w2 = Some t" and t: "t \<noteq> []"
    by (auto simp: video_transcription_def split: option.splits if_splits)
  let ?w3 = "w2\<lparr>st := (st w2)\<lparr>content := content (st w2) @ t @ [10]\<rparr>\<rparr>"
  have s3: "st ?w3 = (st w)\<lparr>content := content (st w) @ t @ [10]\<rparr>"
    using f1 f2 by simp
  have t3: "trace ?w3 = trace w" using f1 f2 by simp
  have i3: "fs ?w3 index_folder = fs w index_folder" using i1 i2 by simp
  have c4: "content (st w4) = content (st w) @ t @ [10]" if "clear_old_index ?w3 = Inr w4" for w4
    using clear_old_index_Inr[OF that] s3 by simp
  have pv: "process_video env up w =
      (case clear_old_index ?w3 of
         Inl e \<Rightarrow> (False, ?w3)
       | Inr w4 \<Rightarrow>
           (case get_vector_store env (get_text_chunks env (content (st w) @ t @ [10]))
                   index_folder w4 of
              (Inl e, w5) \<Rightarrow> (False, w5)
            | (Inr vs, w5) \<Rightarrow>
                (True, remove_all [vp, ap]
                   (w5\<lparr>st := (st w5)\<lparr>vector_store := Some vs,
                                           documents_processed := True\<rparr>\<rparr>))))"
  proof (cases "clear_old_index ?w3")
    case (Inl e)
    then show ?thesis using up h r vp x a ap tr t
      by (simp add: process_video_def)
  next
    case (Inr w4)
    then show ?thesis using up h r vp x a ap tr t c4[OF Inr]
      by (simp add: process_video_def Let_def split: prod.splits sum.splits)
  qed
  show thesis
    by (rule that[of ?w3 "[vp, ap]"]) (fact s3 t3 i3 pv)+
qed

lemma embedded_texts_append:
  "embedded_texts (xs @ ys) = embedded_texts xs @ embedded_texts ys"
  by (induction xs rule: embedded_texts.induct) simp_all

lemma events_since_append: "trace w' = trace w @ evs \<Longrightarrow> events_since w w' = evs"
  by (simp add: events_since_def)

lemma process_video_success:
  assumes tr: "video_transcription env up w = Some t"
    and ok: "fst (process_video env up w)"
  shows "\<exists>vs. from_texts env (map (\<lambda>c. clean_text (Some c))
                   (get_text_chunks env (content (st w) @ t @ [10]))) False = Inr vs \<and>
           save_local env vs index_folder = None \<and>
           st (snd (process_video env up w)) =
             (st w)\<lparr>content := content (st w) @ t @ [10], vector_store := Some vs,
                     documents_processed := True\<rparr> \<and>
           embedded_texts (events_since w (snd (process_video env up w))) =
             map (\<lambda>c. clean_text (Some c)) (get_text_chunks env (content (st w) @ t @ [10]))"
proof (rule process_video_transcribed[OF tr])
  let ?cs = "get_text_chunks env (content (st w) @ t @ [10])"
  fix w3 :: "'a world" and ps
  assume s3: "st w3 = (st w)\<lparr>content := content (st w) @ t @ [10]\<rparr>"
    and t3: "trace w3 = trace w"
    and c3: "process_video env up w =
       (case clear_old_index w3 of
          Inl e \<Rightarrow> (False, w3)
        | Inr w4 \<Rightarrow>
            (case get_vector_store env ?cs index_folder w4 of
               (Inl e, w5) \<Rightarrow> (False, w5)
             | (Inr vs, w5) \<Rightarrow>
                 (True, remove_all ps
                    (w5\<lparr>st := (st w5)\<lparr>vector_store := Some vs,
                                            documents_processed := True\<rparr>\<rparr>))))"
  from c3 ok obtain w4 where k: "clear_old_index w3 = Inr w4"
    by (cases "clear_old_index w3") auto
  define evs :: "'a event list" where
    "evs = (if fs w3 index_folder \<noteq> None then [Rmtree index_folder] else [])"
  have s4: "st w4 = (st w)\<lparr>content := content (st w) @ t @ [10]\<rparr>"
    and t4: "trace w4 = trace w @ evs"
    using clear_old_index_Inr[OF k] s3 t3 by (simp_all add: evs_def)
  have e4: "embedded_texts evs = []" by (simp add: evs_def)
  have c: "process_video env up w =
       (case get_vector_store env ?cs index_folder w4 of
          (Inl e, w5) \<Rightarrow> (False, w5)
        | (Inr vs, w5) \<Rightarrow>
            (True, remove_all ps
               (w5\<lparr>st := (st w5)\<lparr>vector_store := Some vs, documents_processed := True\<rparr>\<rparr>)))"
    using c3 k by simp
  obtain r w5 where g: "get_vector_store env ?cs index_folder w4 = (r, w5)"
    by (cases "get_vector_store env ?cs index_folder w4")
  from c g ok obtain vs where r: "r = Inr vs" by (cases r) auto
  have s5: "st w5 = st w4" using get_vector_store_st[of env ?cs index_folder w4] g by simp
  have res: "fst (get_vector_store env ?cs index_folder w4) = Inr vs" using g r by simp
  then have ft: "from_texts env (map (\<lambda>c. clean_text (Some c)) ?cs) False = Inr vs"
    and sl: "save_local env vs index_folder = None"
    by (auto simp: get_vector_store_result split: sum.splits option.splits)
  have t5: "trace w5 = trace w4 @ [FromTexts (map (\<lambda>c. clean_text (Some c)) ?cs) False, SaveLocal index_folder]"
    using trace_get_vector_store[of env ?cs index_folder w4] g ft by simp
  have pv: "process_video env up w = (True, remove_all ps
               (w5\<lparr>st := (st w5)\<lparr>vector_store := Some vs, documents_processed := True\<rparr>\<rparr>))"
    using c g r by simp
  have st': "st (snd (process_video env up w)) =
      (st w5)\<lparr>vector_store := Some vs, documents_processed := True\<rparr>"
    and tr': "trace (snd (process_video env up w)) = trace w5"
    by (simp_all add: pv remove_all_frame)
  have ev: "events_since w (snd (process_video env up w)) =
      evs @ [FromTexts (map (\<lambda>c. clean_text (Some c)) ?cs) False, SaveLocal index_folder]"
    by (rule events_since_append) (simp add: tr' t5 t4)
  show ?thesis
    apply (rule exI[of _ vs])
    apply (intro conjI ft sl)
     apply (simp add: st' s5 s4)
    apply (simp add: ev embedded_texts_append e4)
    done
qed

lemma process_video_completes:
  assumes tr: "video_transcription env up w = Some t"
    and ft: "from_texts env (map (\<lambda>c. clean_text (Some c))
                   (get_text_chunks env (content (st w) @ t @ [10]))) False = Inr vs"
    and sl: "save_local env vs index_folder = None"
    and nf: "\<not> index_is_file w"
  shows "fst (process_video env up w)"
proof (rule process_video_transcribed[OF tr])
  let ?cs = "get_text_chunks env (content (st w) @ t @ [10])"
  fix w3 :: "'a world" and ps
  assume i3: "fs w3 index_folder = fs w index_folder"
    and c3: "process_video env up w =
       (case clear_old_index w3 of
          Inl e \<Rightarrow> (False, w3)
        | Inr w4 \<Rightarrow>
            (case get_vector_store env ?cs index_folder w4 of
               (Inl e, w5) \<Rightarrow> (False, w5)
             | (Inr vs, w5) \<Rightarrow>
                 (True, remove_all ps
                    (w5\<lparr>st := (st w5)\<lparr>vector_store := Some vs,
                                            documents_processed := True\<rparr>\<rparr>))))"
  from nf have "\<not> index_is_file w3" using index_is_file_cong[OF i3] by simp
  then obtain w4 where k: "clear_old_index w3 = Inr w4"
    using clear_old_index_succeeds by blast
  have "fst (get_vector_store env ?cs index_folder w4) = Inr vs"
    by (simp add: get_vector_store_result ft sl)
  then show ?thesis using c3 k by (cases "get_vector_store env ?cs index_folder w4") auto
qed

lemma process_audio_not_transcribed:
  assumes "audio_transcription env up w = None"
  shows "fst (process_audio env up w) = False \<and>
         st (snd (process_audio env up w)) = st w \<and>
         trace (snd (process_audio env up w)) = trace w"
proof (cases up)
  case None
  then show ?thesis by (simp add: process_audio_def)
next
  case (Some f)
  obtain r w1 where h: "handle_file_upload env (Some f) w = (r, w1)"
    by (cases "handle_file_upload env (Some f) w")
  note f1 = handle_file_upload_frame[OF h]
  show ?thesis
  proof (cases "\<exists>ap. r = Inr (Some ap) \<and> ap \<noteq> []")
    case False
    then show ?thesis using Some h f1
      by (auto simp: process_audio_def split: sum.splits option.splits)
  next
    case True
    then obtain ap where r: "r = Inr (Some ap)" and ap: "ap \<noteq> []" by blast
    have "transcribe_audio env ap w1 = None \<or> transcribe_audio env ap w1 = Some []"
      using assms Some h r ap
      by (auto simp: audio_transcription_def split: option.splits if_splits)
    then show ?thesis using Some h f1 r ap
      by (auto simp: process_audio_def)
  qed
qed

lemma process_audio_transcribed:
  assumes "audio_transcription env up w = Some t"
  obtains evs where
    "embedded_texts evs = []"
    "index_is_file w \<Longrightarrow> fst (process_audio env up w) = False"
    "\<not> index_is_file w \<Longrightarrow>
     case from_texts env (split_text env 500 50 audio_separators t) True of
       Inl e \<Rightarrow> fst (process_audio env up w) = False
     | Inr vs \<Rightarrow>
         (case save_local env vs index_folder of
            Some e \<Rightarrow> fst (process_audio env up w) = False
          | None \<Rightarrow>
              fst (process_audio env up w) = True \<and>
              st (snd (process_audio env up w)) =
                (st w)\<lparr>content := t, vector_store := Some vs, documents_processed := True\<rparr> \<and>
              trace (snd (process_audio env up w)) =
                trace w @ evs @ [FromTexts (split_text env 500 50 audio_separators t) True,
                                 SaveLocal index_folder])"
proof -
  from assms obtain f where up: "up = Some f"
    by (cases up) (auto simp: audio_transcription_def)
  obtain r w1 where h: "handle_file_upload env (Some f) w = (r, w1)"
    by (cases "handle_file_upload env (Some f) w")
  note f1 = handle_file_upload_frame[OF h] and i1 = handle_file_upload_index[OF h]
  from assms up h obtain ap where r: "r = Inr (Some ap)" and ap: "ap \<noteq> []"
    by (auto simp: audio_transcription_def split: sum.splits option.splits if_splits)
  from assms up h r ap have tr: "transcribe_audio env ap w1 = Some t" and t: "t \<noteq> []"
    by (auto simp: audio_transcription_def split: option.splits if_splits)
  let ?evs = "if fs w1 index_folder \<noteq> None then [Rmtree index_folder] else []"
  have e2: "embedded_texts ?evs = []" by simp
  have pf: "fst (process_audio env up w) = False" if "index_is_file w"
  proof -
    from that have "index_is_file w1" using index_is_file_cong[OF i1] by simp
    then obtain e where "clear_old_index w1 = Inl e"
      using clear_old_index_not_file[of w1] by (cases "clear_old_index w1") auto
    then show ?thesis using up h r ap tr t by (simp add: process_audio_def)
  qed
  have pa: "case from_texts env (split_text env 500 50 audio_separators t) True of
       Inl e \<Rightarrow> fst (process_audio env up w) = False
     | Inr vs \<Rightarrow>
         (case save_local env vs index_folder of
            Some e \<Rightarrow> fst (process_audio env up w) = False
          | None \<Rightarrow>
              fst (process_audio env up w) = True \<and>
              st (snd (process_audio env up w)) =
                (st w)\<lparr>content := t, vector_store := Some vs, documents_processed := True\<rparr> \<and>
              trace (snd (process_audio env up w)) =
                trace w @ ?evs @ [FromTexts (split_text env 500 50 audio_separators t) True,
                                 SaveLocal index_folder])"
    if "\<not> index_is_file w"
  proof -
    from that have "\<not> index_is_file w1" using index_is_file_cong[OF i1] by simp
    then obtain w2 where k: "clear_old_index w1 = Inr w2"
      using clear_old_index_succeeds by blast
    note f2 = clear_old_index_Inr[OF k]
    show ?thesis
      using up h r ap tr t f1 f2 k
      by (simp add: process_audio_def Let_def emit_def remove_all_frame
          split: sum.splits option.splits)
  qed
  show thesis
    by (rule that[of ?evs]) (fact e2 pf pa)+
qed

lemma process_audio_success:
  assumes tr: "audio_transcription env up w = Some t"
    and ok: "fst (process_audio env up w)"
  shows "\<exists>vs. from_texts env (split_text env 500 50 audio_separators t) True = Inr vs \<and>
           save_local env vs index_folder = None \<and>
           st (snd (process_audio env up w)) =
             (st w)\<lparr>content := t, vector_store := Some vs, documents_processed := True\<rparr> \<and>
           embedded_texts (events_since w (snd (process_audio env up w))) =
             split_text env 500 50 audio_separators t"
proof (rule process_audio_transcribed[OF tr])
  let ?cs = "split_text env 500 50 audio_separators t"
  fix evs :: "'a event list"
  assume e2: "embedded_texts evs = []"
    and cf: "index_is_file w \<Longrightarrow> fst (process_audio env up w) = False"
    and cn: "\<not> index_is_file w \<Longrightarrow>
     case from_texts env ?cs True of
       Inl e \<Rightarrow> fst (process_audio env up w) = False
     | Inr vs \<Rightarrow>
         (case save_local env vs index_folder of
            Some e \<Rightarrow> fst (process_audio env up w) = False
          | None \<Rightarrow>
              fst (process_audio env up w) = True \<and>
              st (snd (process_audio env up w)) =
                (st w)\<lparr>content := t, vector_store := Some vs, documents_processed := True\<rparr> \<and>
              trace (snd (process_audio env up w)) =
                trace w @ evs @ [FromTexts ?cs True, SaveLocal index_folder])"
  from cf ok have nf: "\<not> index_is_file w" by auto
  note c = cn[OF nf]
  from c ok obtain vs where ft: "from_texts env ?cs True = Inr vs"
    by (cases "from_texts env ?cs True") auto
  from c ok ft have sl: "save_local env vs index_folder = None"
    by (cases "save_local env vs index_folder") auto
  from c ft sl have st': "st (snd (process_audio env up w)) =
      (st w)\<lparr>content := t, vector_store := Some vs, documents_processed := True\<rparr>"
    and tr': "trace (snd (process_audio env up w)) =
      trace w @ evs @ [FromTexts ?cs True, SaveLocal index_folder]"
    by simp_all
  have ev: "events_since w (snd (process_audio env up w)) =
      evs @ [FromTexts ?cs True, SaveLocal index_folder]"
    by (rule events_since_append) (simp add: tr')
  show ?thesis
    apply (rule exI[of _ vs])
    apply (intro conjI ft sl st')
    apply (simp add: ev embedded_texts_append e2)
    done
qed

lemma process_audio_completes:
  assumes tr: "audio_transcription env up w = Some t"
    and ft: "from_texts env (split_text env 500 50 audio_separators t) True = Inr vs"
    and sl: "save_local env vs index_folder = None"
    and nf: "\<not> index_is_file w"
  shows "fst (process_audio env up w)"
proof (rule process_audio_transcribed[OF tr])
  fix evs :: "'a event list"
  assume "\<not> index_is_file w \<Longrightarrow>
     case from_texts env (split_text env 500 50 audio_separators t) True of
       Inl e \<Rightarrow> fst (process_audio env up w) = False
     | Inr vs \<Rightarrow>
         (case save_local env vs index_folder of
            Some e \<Rightarrow> fst (process_audio env up w) = False
          | None \<Rightarrow>
              fst (process_audio env up w) = True \<and>
              st (snd (process_audio env up w)) =
                (st w)\<lparr>content := t, vector_store := Some vs, documents_processed := True\<rparr> \<and>
              trace (snd (process_audio env up w)) =
                trace w @ evs @ [FromTexts (split_text env 500 50 audio_separators t) True,
                                 SaveLocal index_folder])"
  from this[OF nf] show ?thesis by (simp add: ft sl)
qed

lemma sample_upload_path:
  "os_path_join UPLOAD_FOLDER (name clip) = of_ascii ''uploads/a.mp4''"
  by (simp add: os_path_join_def UPLOAD_FOLDER_def clip_def of_ascii_def)

lemma sample_audio_path:
  "splitext_root (of_ascii ''uploads/a.mp4'') @ of_ascii ''.wav'' = of_ascii ''uploads/a.wav''"
  by (simp add: splitext_root_def py_rfind_def py_slice_def slice_bound_def of_ascii_def Let_def)

lemma sample_video_transcription:
  "video_transcription sample_env (Some clip) used_world = Some [104, 105]"
  by (simp add: video_transcription_def handle_file_upload_def makedirs_def sample_upload_path
      extract_audio_def sample_audio_path transcribe_audio_def Let_def
      sample_env_def used_world_def fresh_world_def)
    (simp add: clip_def of_ascii_def UPLOAD_FOLDER_def)

lemma deaf_video_transcription:
  "video_transcription deaf_env (Some clip) used_world = None"
  by (simp add: video_transcription_def handle_file_upload_def makedirs_def sample_upload_path
      extract_audio_def sample_audio_path transcribe_audio_def Let_def deaf_env_def
      sample_env_def used_world_def fresh_world_def)

lemma sample_audio_transcription:
  "audio_transcription sample_env (Some clip) used_world = Some [104, 105]"
  by (simp add: audio_transcription_def handle_file_upload_def makedirs_def sample_upload_path
      transcribe_audio_def Let_def sample_env_def used_world_def fresh_world_def)
    (simp add: clip_def of_ascii_def UPLOAD_FOLDER_def)

lemma process_video_True_transcribed:
  "fst (process_video env up w) \<Longrightarrow> \<exists>t. video_transcription env up w = Some t"
  using process_video_not_transcribed[of env up w] by (cases "video_transcription env up w") auto

lemma process_audio_True_transcribed:
  "fst (process_audio env up w) \<Longrightarrow> \<exists>t. audio_transcription env up w = Some t"
  using process_audio_not_transcribed[of env up w] by (cases "audio_transcription env up w") auto

lemma used_world_index: "\<not> index_is_file used_world"
  by (simp add: index_is_file_def used_world_def fresh_world_def)

lemma sample_process_audio: "fst (process_audio sample_env (Some clip) used_world)"
  by (rule process_audio_completes[OF sample_audio_transcription _ _ used_world_index])
    (simp_all add: sample_env_def)

lemma sample_process_video: "fst (process_video sample_env (Some clip) used_world)"
  by (rule process_video_completes[OF sample_video_transcription _ _ used_world_index])
    (simp_all add: sample_env_def)

lemma long_upload_path:
  "os_path_join UPLOAD_FOLDER (name long_clip) = of_ascii ''uploads/a.mp4''"
  by (simp add: os_path_join_def UPLOAD_FOLDER_def long_clip_def of_ascii_def)

lemma long_audio_transcription:
  "audio_transcription window_env (Some long_clip) used_world = Some (replicate 600 97)"
  by (simp add: audio_transcription_def handle_file_upload_def makedirs_def long_upload_path
      transcribe_audio_def Let_def window_env_def sample_env_def used_world_def fresh_world_def)
    (simp add: long_clip_def of_ascii_def UPLOAD_FOLDER_def)

lemma long_process_audio: "fst (process_audio window_env (Some long_clip) used_world)"
  by (rule process_audio_completes[OF long_audio_transcription _ _ used_world_index])
    (simp_all add: window_env_def sample_env_def)

text \<open>
  Claim C3, as amended. Chunking produces overlapping segments. In the late-chunking loop,
  when \<open>0 < chunk_overlap < chunk_size\<close>, the loop returns; the chunks of each document
  are the slices of its cleaned text that start at the multiples of
  \<open>chunk_size - chunk_overlap\<close> below the length of the text and are \<open>chunk_size\<close> long at
  most; a text longer than one chunk gives at least two chunks; and within a document every
  chunk but the last overlaps the next: what it holds from offset
  \<open>chunk_size - chunk_overlap\<close> on is not empty and starts the next chunk, and these are
  its final \<open>chunk_overlap\<close> characters when the chunk is \<open>chunk_size\<close> long.
  \<open>get_text_chunks\<close> calls the library splitter with chunk size 1000 and overlap 100, and
  \<open>get_vector_store\<close> embeds its chunks, each cleaned; a successful \<open>process_audio\<close>
  embeds what the splitter returns for chunk size 500 and overlap 50. With a splitter that
  overlaps as the spec says, on both paths consecutive chunks overlap and a text longer
  than one chunk gives at least two chunks.
\<close>

theorem chunking_overlap:
  "(0 < chunk_overlap \<and> chunk_overlap < chunk_size \<longrightarrow>
      (\<exists>groups. get_late_chunked_text docs chunk_size chunk_overlap = Some (concat groups) \<and>
         length groups = length docs \<and>
         (\<forall>j < length docs.
            (\<forall>i. i < length (groups ! j) \<longleftrightarrow>
               int i * (chunk_size - chunk_overlap) < int (length (doc_text (docs ! j)))) \<and>
            (\<forall>i < length (groups ! j).
               groups ! j ! i = Document (py_slice (doc_text (docs ! j))
                 (int i * (chunk_size - chunk_overlap))
                 (int i * (chunk_size - chunk_overlap) + chunk_size))) \<and>
            successively (shared_with_next chunk_size chunk_overlap) (groups ! j) \<and>
            successively (\<lambda>a b. overlapping (page_content a) (page_content b)) (groups ! j) \<and>
            (chunk_size < int (length (doc_text (docs ! j))) \<longrightarrow> 2 \<le> length (groups ! j))))) \<and>
   get_text_chunks env t = split_text env 1000 100 default_separators t \<and>
   embedded_texts (events_since w (snd (get_vector_store env (get_text_chunks env t) p w))) =
     map (\<lambda>c. clean_text (Some c)) (get_text_chunks env t) \<and>
   (overlapping_splitter env \<longrightarrow>
      successively overlapping (get_text_chunks env t) \<and>
      (1000 < length t \<longrightarrow> 2 \<le> length (get_text_chunks env t))) \<and>
   (fst (process_audio env up w) \<longrightarrow>
      (\<exists>tr. audio_transcription env up w = Some tr \<and>
         embedded_texts (events_since w (snd (process_audio env up w))) =
           split_text env 500 50 audio_separators tr \<and>
         (overlapping_splitter env \<longrightarrow>
            successively overlapping
              (embedded_texts (events_since w (snd (process_audio env up w)))) \<and>
            (500 < length tr \<longrightarrow>
               2 \<le> length (embedded_texts (events_since w (snd (process_audio env up w))))))))"
proof (intro conjI impI)
  assume a: "0 < chunk_overlap \<and> chunk_overlap < chunk_size"
  let ?step = "chunk_size - chunk_overlap"
  let ?chunks = "\<lambda>doc. chunks_from (doc_text doc) chunk_size ?step 0"
  let ?groups = "map ?chunks docs"
  have step: "0 < ?step" "?step < chunk_size" using a by auto
  have e: "get_late_chunked_text docs chunk_size chunk_overlap = Some (concat ?groups)"
    using late_chunk_docs_chunks[OF step(1), of docs "[]"]
    by (simp add: get_late_chunked_text_def)
  have n: "i < length (?chunks doc) \<longleftrightarrow> int i * ?step < int (length (doc_text doc))" for i doc
    using chunks_from_length_iff[OF step(1), of i "doc_text doc" chunk_size 0] by simp
  have s: "?chunks doc ! i = Document (py_slice (doc_text doc) (int i * ?step)
                                         (int i * ?step + chunk_size))"
    if "i < length (?chunks doc)" for i doc
    using chunks_from_nth[OF step(1) that] by simp
  have "successively (shared_with_next chunk_size (chunk_size - ?step)) (?chunks doc)" for doc
    using step by (intro chunks_from_successively) auto
  then have sh: "successively (shared_with_next chunk_size chunk_overlap) (?chunks doc)" for doc
    by simp
  have ov: "successively (\<lambda>a b. overlapping (page_content a) (page_content b)) (?chunks doc)"
    for doc
    using sh[of doc] by (rule successively_mono) (auto intro: shared_with_next_overlapping)
  have two: "2 \<le> length (?chunks doc)" if "chunk_size < int (length (doc_text doc))" for doc
  proof -
    have "1 < length (?chunks doc)" using n[of 1 doc] that step by simp
    then show ?thesis by simp
  qed
  show "\<exists>groups. get_late_chunked_text docs chunk_size chunk_overlap = Some (concat groups) \<and>
         length groups = length docs \<and>
         (\<forall>j < length docs.
            (\<forall>i. i < length (groups ! j) \<longleftrightarrow>
               int i * (chunk_size - chunk_overlap) < int (length (doc_text (docs ! j)))) \<and>
            (\<forall>i < length (groups ! j).
               groups ! j ! i = Document (py_slice (doc_text (docs ! j))
                 (int i * (chunk_size - chunk_overlap))
                 (int i * (chunk_size - chunk_overlap) + chunk_size))) \<and>
            successively (shared_with_next chunk_size chunk_overlap) (groups ! j) \<and>
            successively (\<lambda>a b. overlapping (page_content a) (page_content b)) (groups ! j) \<and>
            (chunk_size < int (length (doc_text (docs ! j))) \<longrightarrow> 2 \<le> length (groups ! j)))"
  proof (rule exI[of _ ?groups], intro conjI allI impI)
    show "get_late_chunked_text docs chunk_size chunk_overlap = Some (concat ?groups)" by (rule e)
    show "length ?groups = length docs" by simp
  next
    fix j i assume j: "j < length docs"
    show "i < length (?groups ! j) \<longleftrightarrow> int i * ?step < int (length (doc_text (docs ! j)))"
      using j n[of i "docs ! j"] by simp
  next
    fix j i assume j: "j < length docs" and i: "i < length (?groups ! j)"
    show "?groups ! j ! i = Document (py_slice (doc_text (docs ! j)) (int i * ?step)
                                         (int i * ?step + chunk_size))"
      using j i s[of i "docs ! j"] by simp
  next
    fix j assume j: "j < length docs"
    show "successively (shared_with_next chunk_size chunk_overlap) (?groups ! j)"
      using j sh[of "docs ! j"] by simp
    show "successively (\<lambda>a b. overlapping (page_content a) (page_content b)) (?groups ! j)"
      using j ov[of "docs ! j"] by simp
    assume "chunk_size < int (length (doc_text (docs ! j)))"
    then show "2 \<le> length (?groups ! j)" using j two[of "docs ! j"] by simp
  qed
next
  show "get_text_chunks env t = split_text env 1000 100 default_separators t"
    by (simp add: get_text_chunks_def)
next
  show "embedded_texts (events_since w (snd (get_vector_store env (get_text_chunks env t) p w))) =
     map (\<lambda>c. clean_text (Some c)) (get_text_chunks env t)"
    by (rule embedded_get_vector_store)
next
  assume c: "overlapping_splitter env"
  show "successively overlapping (get_text_chunks env t)"
    using c by (simp add: overlapping_splitter_def get_text_chunks_def)
  assume "1000 < length t"
  then show "2 \<le> length (get_text_chunks env t)"
    using c by (simp add: overlapping_splitter_def get_text_chunks_def)
next
  assume ok: "fst (process_audio env up w)"
  then obtain tr where tr: "audio_transcription env up w = Some tr"
    using process_audio_True_transcribed by blast
  from process_audio_success[OF tr ok] have
    em: "embedded_texts (events_since w (snd (process_audio env up w))) =
           split_text env 500 50 audio_separators tr" by blast
  show "\<exists>tr. audio_transcription env up w = Some tr \<and>
         embedded_texts (events_since w (snd (process_audio env up w))) =
           split_text env 500 50 audio_separators tr \<and>
         (overlapping_splitter env \<longrightarrow>
            successively overlapping
              (embedded_texts (events_since w (snd (process_audio env up w)))) \<and>
            (500 < length tr \<longrightarrow>
               2 \<le> length (embedded_texts (events_since w (snd (process_audio env up w))))))"
  proof (rule exI[of _ tr], intro conjI impI)
    show "audio_transcription env up w = Some tr" by (rule tr)
    show "embedded_texts (events_since w (snd (process_audio env up w))) =
           split_text env 500 50 audio_separators tr" by (rule em)
  next
    assume c: "overlapping_splitter env"
    show "successively overlapping (embedded_texts (events_since w (snd (process_audio env up w))))"
      using c by (simp add: em overlapping_splitter_def)
    assume "500 < length tr"
    then show "2 \<le> length (embedded_texts (events_since w (snd (process_audio env up w))))"
      using c by (simp add: em overlapping_splitter_def)
  qed
qed

theorem chunking_overlap_witness:
  "get_late_chunked_text [Doc (Document [97, 98, 99, 100, 101]), Doc (Document [120, 121, 122])] 4 2 =
     Some [Document [97, 98, 99, 100], Document [99, 100, 101], Document [101],
           Document [120, 121, 122], Document [122]] \<and>
   successively (shared_with_next 4 2)
     [Document [97, 98, 99, 100], Document [99, 100, 101], Document [101]] \<and>
   successively (shared_with_next 4 2) [Document [120, 121, 122], Document [122]] \<and>
   overlapping_splitter window_env \<and>
   successively overlapping (get_text_chunks window_env (replicate 1100 97)) \<and>
   2 \<le> length (get_text_chunks window_env (replicate 1100 97)) \<and>
   fst (process_audio window_env (Some long_clip) used_world) \<and>
   audio_transcription window_env (Some long_clip) used_world = Some (replicate 600 97) \<and>
   successively overlapping
     (embedded_texts (events_since used_world
        (snd (process_audio window_env (Some long_clip) used_world)))) \<and>
   2 \<le> length (embedded_texts (events_since used_world
          (snd (process_audio window_env (Some long_clip) used_world))))"
proof -
  note th = chunking_overlap[where chunk_size = 4 and chunk_overlap = 2
      and docs = "[Doc (Document [97, 98, 99, 100, 101]), Doc (Document [120, 121, 122])]"
      and env = window_env and t = "replicate 1100 97" and up = "Some long_clip"
      and w = used_world and p = index_folder]
  from th window_env_overlapping
  have d: "successively overlapping (get_text_chunks window_env (replicate 1100 97))"
    "2 \<le> length (get_text_chunks window_env (replicate 1100 97))"
    by auto
  from th long_process_audio long_audio_transcription window_env_overlapping
  have a: "successively overlapping
     (embedded_texts (events_since used_world
        (snd (process_audio window_env (Some long_clip) used_world))))"
    "2 \<le> length (embedded_texts (events_since used_world
          (snd (process_audio window_env (Some long_clip) used_world))))"
    by auto
  have s: "successively (shared_with_next 4 2)
     [Document [97, 98, 99, 100], Document [99, 100, 101], Document [101]]"
    "successively (shared_with_next 4 2) [Document [120, 121, 122], Document [122]]"
    by (simp_all add: shared_with_next_def)
  show ?thesis
    using d a s sample_boundary_chunks window_env_overlapping long_process_audio
      long_audio_transcription
    by simp
qed

text \<open>
  Claim C8. \<open>process_video\<close> returns \<open>True\<close> only when the upload was saved, the audio
  extracted and a non-empty transcription obtained; when any of these steps fails it returns
  \<open>False\<close>, the session's content, vector store and \<open>documents_processed\<close> are unchanged, and
  no index was cleared or built.
\<close>

theorem process_video_failure_leaves_session:
  "(fst (process_video env up w) \<longrightarrow> video_transcription env up w \<noteq> None) \<and>
   (video_transcription env up w = None \<longrightarrow>
      fst (process_video env up w) = False \<and>
      content (st (snd (process_video env up w))) = content (st w) \<and>
      vector_store (st (snd (process_video env up w))) = vector_store (st w) \<and>
      documents_processed (st (snd (process_video env up w))) = documents_processed (st w) \<and>
      events_since w (snd (process_video env up w)) = [])"
proof (intro conjI impI)
  assume "fst (process_video env up w)"
  then show "video_transcription env up w \<noteq> None"
    using process_video_True_transcribed by fastforce
next
  assume n: "video_transcription env up w = None"
  note f = process_video_not_transcribed[OF n]
  show "fst (process_video env up w) = False" using f by simp
  show "content (st (snd (process_video env up w))) = content (st w)" using f by simp
  show "vector_store (st (snd (process_video env up w))) = vector_store (st w)" using f by simp
  show "documents_processed (st (snd (process_video env up w))) = documents_processed (st w)"
    using f by simp
  show "events_since w (snd (process_video env up w)) = []"
    using f by (simp add: events_since_def)
qed

theorem process_video_failure_leaves_session_witness:
  "fst (process_video sample_env (Some clip) used_world) \<and>
   video_transcription sample_env (Some clip) used_world = Some [104, 105] \<and>
   video_transcription deaf_env (Some clip) used_world = None \<and>
   fst (process_video deaf_env (Some clip) used_world) = False \<and>
   content (st (snd (process_video deaf_env (Some clip) used_world))) = [111, 108, 100, 10] \<and>
   vector_store (st (snd (process_video deaf_env (Some clip) used_world))) = None \<and>
   documents_processed (st (snd (process_video deaf_env (Some clip) used_world))) = False \<and>
   events_since used_world (snd (process_video deaf_env (Some clip) used_world)) = []"
  using process_video_failure_leaves_session[of sample_env "Some clip" used_world]
    process_video_failure_leaves_session[of deaf_env "Some clip" used_world]
    sample_process_video sample_video_transcription deaf_video_transcription
  by (simp add: used_world_def fresh_world_def)

text \<open>
  Claim C9. After a successful \<open>process_audio\<close> the session content is the new
  transcription alone and the vector store is built from the chunks (size 500, overlap 50)
  of that transcription only; after a successful \<open>process_video\<close> the content is the prior
  content followed by the transcription and a newline, and the vector store is built from
  the cleaned chunks of this accumulated content.
\<close>

theorem audio_replaces_video_appends:
  "(fst (process_audio env up w) \<longrightarrow>
      (\<exists>t vs. audio_transcription env up w = Some t \<and>
         content (st (snd (process_audio env up w))) = t \<and>
         embedded_texts (events_since w (snd (process_audio env up w))) =
           split_text env 500 50 audio_separators t \<and>
         from_texts env (split_text env 500 50 audio_separators t) True = Inr vs \<and>
         vector_store (st (snd (process_audio env up w))) = Some vs)) \<and>
   (fst (process_video env up w) \<longrightarrow>
      (\<exists>t vs. video_transcription env up w = Some t \<and>
         content (st (snd (process_video env up w))) = content (st w) @ t @ [10] \<and>
         embedded_texts (events_since w (snd (process_video env up w))) =
           map (\<lambda>c. clean_text (Some c)) (get_text_chunks env (content (st w) @ t @ [10])) \<and>
         from_texts env
           (map (\<lambda>c. clean_text (Some c)) (get_text_chunks env (content (st w) @ t @ [10])))
           False = Inr vs \<and>
         vector_store (st (snd (process_video env up w))) = Some vs))"
proof (intro conjI impI)
  assume ok: "fst (process_audio env up w)"
  then obtain t where tr: "audio_transcription env up w = Some t"
    using process_audio_True_transcribed by blast
  from process_audio_success[OF tr ok] obtain vs where
    "from_texts env (split_text env 500 50 audio_separators t) True = Inr vs"
    "st (snd (process_audio env up w)) =
       (st w)\<lparr>content := t, vector_store := Some vs, documents_processed := True\<rparr>"
    "embedded_texts (events_since w (snd (process_audio env up w))) =
       split_text env 500 50 audio_separators t"
    by blast
  then show "\<exists>t vs. audio_transcription env up w = Some t \<and>
         content (st (snd (process_audio env up w))) = t \<and>
         embedded_texts (events_since w (snd (process_audio env up w))) =
           split_text env 500 50 audio_separators t \<and>
         from_texts env (split_text env 500 50 audio_separators t) True = Inr vs \<and>
         vector_store (st (snd (process_audio env up w))) = Some vs"
    using tr by (intro exI[of _ t] exI[of _ vs]) simp
next
  assume ok: "fst (process_video env up w)"
  then obtain t where tr: "video_transcription env up w = Some t"
    using process_video_True_transcribed by blast
  let ?cs = "map (\<lambda>c. clean_text (Some c)) (get_text_chunks env (content (st w) @ t @ [10]))"
  from process_video_success[OF tr ok] obtain vs where
    "from_texts env ?cs False = Inr vs"
    "st (snd (process_video env up w)) =
       (st w)\<lparr>content := content (st w) @ t @ [10], vector_store := Some vs,
               documents_processed := True\<rparr>"
    "embedded_texts (events_since w (snd (process_video env up w))) = ?cs"
    by blast
  then show "\<exists>t vs. video_transcription env up w = Some t \<and>
         content (st (snd (process_video env up w))) = content (st w) @ t @ [10] \<and>
         embedded_texts (events_since w (snd (process_video env up w))) =
           map (\<lambda>c. clean_text (Some c)) (get_text_chunks env (content (st w) @ t @ [10])) \<and>
         from_texts env
           (map (\<lambda>c. clean_text (Some c)) (get_text_chunks env (content (st w) @ t @ [10])))
           False = Inr vs \<and>
         vector_store (st (snd (process_video env up w))) = Some vs"
    using tr by (intro exI[of _ t] exI[of _ vs]) simp
qed

theorem audio_replaces_video_appends_witness:
  "content (st used_world) = [111, 108, 100, 10] \<and>
   fst (process_audio sample_env (Some clip) used_world) \<and>
   content (st (snd (process_audio sample_env (Some clip) used_world))) = [104, 105] \<and>
   embedded_texts (events_since used_world (snd (process_audio sample_env (Some clip) used_world)))
     = [[104, 105]] \<and>
   vector_store (st (snd (process_audio sample_env (Some clip) used_world))) = Some [[104, 105]] \<and>
   fst (process_video sample_env (Some clip) used_world) \<and>
   content (st (snd (process_video sample_env (Some clip) used_world))) =
     [111, 108, 100, 10, 104, 105, 10] \<and>
   embedded_texts (events_since used_world (snd (process_video sample_env (Some clip) used_world)))
     = [[111, 108, 100, 10, 104, 105]] \<and>
   vector_store (st (snd (process_video sample_env (Some clip) used_world))) =
     Some [[111, 108, 100, 10, 104, 105]]"
proof -
  have c: "content (st used_world) = [111, 108, 100, 10]"
    by (simp add: used_world_def fresh_world_def)
  have sp: "split_text sample_env 500 50 audio_separators [104, 105] = [[104, 105]]"
    by (simp add: sample_env_def)
  have ft: "\<And>ts n. from_texts sample_env ts n = Inr ts" by (simp add: sample_env_def)
  have gc: "map (\<lambda>c. clean_text (Some c))
      (get_text_chunks sample_env [111, 108, 100, 10, 104, 105, 10]) =
      [[111, 108, 100, 10, 104, 105]]"
    by (simp add: get_text_chunks_def sample_env_def clean_text_def encode_replace_decode_def
        is_surrogate_def py_strip_def py_isspace_def)
  show ?thesis
    using audio_replaces_video_appends[of sample_env "Some clip" used_world]
      sample_process_audio sample_process_video sample_audio_transcription
      sample_video_transcription
    by (auto simp: c sp ft gc)
qed

subsection \<open>Retrieval and question answering\<close>

lemma cohere_prompts_append:
  "cohere_prompts (xs @ ys) = cohere_prompts xs @ cohere_prompts ys"
  by (induction xs rule: cohere_prompts.induct) simp_all

lemma search_queries_append:
  "search_queries (xs @ ys) = search_queries xs @ search_queries ys"
  by (induction xs rule: search_queries.induct) simp_all

lemma chain_calls_append:
  "chain_calls (xs @ ys) = chain_calls xs @ chain_calls ys"
  by (induction xs rule: chain_calls.induct) simp_all

text \<open>The store \<open>retrieve_documents\<close> searches, if any, and the events of finding it.\<close>

lemma load_vector_store_None:
  "fst (load_vector_store env p w) = Inr None \<longleftrightarrow> fs w p = None"
  by (simp add: load_vector_store_def split: option.splits sum.splits)

lemma retrieve_documents_session:
  "vector_store (st w) = Some vs \<Longrightarrow>
   retrieve_documents env q w =
     ((case similarity_search env vs q of Inl e \<Rightarrow> [] | Inr ds \<Rightarrow> ds),
      emit [SimilaritySearch vs q] w)"
  by (simp add: retrieve_documents_def split: sum.splits)

lemma retrieve_documents_absent:
  "vector_store (st w) = None \<Longrightarrow> fs w index_folder = None \<Longrightarrow>
   retrieve_documents env q w = ([], w)"
  by (simp add: retrieve_documents_def load_vector_store_def)

lemma retrieve_documents_load_fails:
  "vector_store (st w) = None \<Longrightarrow> fs w index_folder = Some nd \<Longrightarrow>
   load_local env index_folder nd = Inl e \<Longrightarrow>
   retrieve_documents env q w = ([], emit [LoadLocal index_folder] w)"
  by (simp add: retrieve_documents_def load_vector_store_def)

lemma retrieve_documents_loaded:
  "vector_store (st w) = None \<Longrightarrow> fs w index_folder = Some nd \<Longrightarrow>
   load_local env index_folder nd = Inr vs \<Longrightarrow>
   retrieve_documents env q w =
     ((case similarity_search env vs q of Inl e \<Rightarrow> [] | Inr ds \<Rightarrow> ds),
      emit [SimilaritySearch vs q]
        ((emit [LoadLocal index_folder] w)\<lparr>st := (st w)\<lparr>vector_store := Some vs\<rparr>\<rparr>))"
  by (simp add: retrieve_documents_def load_vector_store_def emit_def split: sum.splits)

lemma retrieve_documents_cases:
  obtains
    (session) vs where "vector_store (st w) = Some vs"
  | (absent) "vector_store (st w) = None" "fs w index_folder = None"
  | (load_fails) nd e where "vector_store (st w) = None" "fs w index_folder = Some nd"
      "load_local env index_folder nd = Inl e"
  | (loaded) nd vs where "vector_store (st w) = None" "fs w index_folder = Some nd"
      "load_local env index_folder nd = Inr vs"
proof (cases "vector_store (st w)")
  case (Some vs)
  then show ?thesis by (rule session)
next
  case None
  show ?thesis
  proof (cases "fs w index_folder")
    case n: None
    with None show ?thesis by (rule absent)
  next
    case (Some nd)
    show ?thesis
    proof (cases "load_local env index_folder nd")
      case (Inl e)
      with None Some show ?thesis by (rule load_fails)
    next
      case (Inr vs)
      with None Some show ?thesis by (rule loaded)
    qed
  qed
qed

lemma retrieve_documents_events:
  "\<exists>evs. trace (snd (retrieve_documents env q w)) = trace w @ evs \<and>
     cohere_prompts evs = [] \<and> chain_calls evs = [] \<and>
     (search_queries evs = [] \<or> search_queries evs = [q]) \<and>
     (fst (retrieve_documents env q w) \<noteq> [] \<longrightarrow> search_queries evs = [q])"
proof (cases rule: retrieve_documents_cases[where w=w and env=env])
  case (session vs)
  show ?thesis
    by (rule exI[of _ "[SimilaritySearch vs q]"])
      (simp add: retrieve_documents_session[OF session] emit_def)
next
  case absent
  show ?thesis
    by (rule exI[of _ "[]"]) (simp add: retrieve_documents_absent[OF absent])
next
  case (load_fails nd e)
  show ?thesis
    by (rule exI[of _ "[LoadLocal index_folder]"])
      (simp add: retrieve_documents_load_fails[OF load_fails] emit_def)
next
  case (loaded nd vs)
  show ?thesis
    by (rule exI[of _ "[LoadLocal index_folder, SimilaritySearch vs q]"])
      (simp add: retrieve_documents_loaded[OF loaded] emit_def)
qed

lemma fetch_related_terms_world:
  "snd (fetch_related_terms env q w) = emit [CohereGenerate (related_terms_prompt q)] w"
  by (simp add: fetch_related_terms_def Let_def split: sum.splits list.splits)

lemma process_question_trace:
  "trace (snd (process_question env q ds w)) =
     trace w @ (if ds = [] then [] else [QAChain ds q])"
  by (simp add: process_question_def emit_def)

lemma process_input_run:
  "process_input env question w =
     process_question env question
       (fst (retrieve_documents env
          (if (if length (py_split question) < 15 then fst (fetch_related_terms env question w) else []) \<noteq> []
           then question @ [32] @
             (if length (py_split question) < 15 then fst (fetch_related_terms env question w) else [])
           else question)
          (if length (py_split question) < 15 then snd (fetch_related_terms env question w) else w)))
       (snd (retrieve_documents env
          (if (if length (py_split question) < 15 then fst (fetch_related_terms env question w) else []) \<noteq> []
           then question @ [32] @
             (if length (py_split question) < 15 then fst (fetch_related_terms env question w) else [])
           else question)
          (if length (py_split question) < 15 then snd (fetch_related_terms env question w) else w)))"
  by (simp add: process_input_def Let_def split_beta)

text \<open>
  Claim C1. \<open>process_input\<close> calls Cohere for related terms exactly when the question has
  fewer than 15 whitespace-separated words; it then retrieves with the question, a space and
  the related terms (with the question alone when no related terms came back), and for a
  question of 15 words or more it retrieves with the question unchanged; in both cases the
  answer is what \<open>process_question\<close> gives for the original question and the retrieved
  documents, and the chain, when called, is called with the original question.
\<close>

theorem process_input_expansion:
  "(let evs = events_since w (snd (process_input env question w));
        short = length (py_split question) < 15;
        related_terms = (if short then fst (fetch_related_terms env question w) else []);
        w1 = (if short then snd (fetch_related_terms env question w) else w);
        query = (if related_terms \<noteq> [] then question @ [32] @ related_terms else question);
        docs = fst (retrieve_documents env query w1)
    in cohere_prompts evs = (if short then [related_terms_prompt question] else []) \<and>
       (search_queries evs = [] \<or> search_queries evs = [query]) \<and>
       chain_calls evs = (if docs = [] then [] else [(docs, question)]) \<and>
       fst (process_input env question w) =
         fst (process_question env question docs (snd (retrieve_documents env query w1))))"
proof -
  define short where "short = (length (py_split question) < 15)"
  define related_terms where
    "related_terms = (if short then fst (fetch_related_terms env question w) else [])"
  define w1 where "w1 = (if short then snd (fetch_related_terms env question w) else w)"
  define query where
    "query = (if related_terms \<noteq> [] then question @ [32] @ related_terms else question)"
  define docs where "docs = fst (retrieve_documents env query w1)"
  define w2 where "w2 = snd (retrieve_documents env query w1)"
  have run: "process_input env question w = process_question env question docs w2"
    unfolding docs_def w2_def query_def w1_def related_terms_def short_def
    by (rule process_input_run)
  have t1: "trace w1 = trace w @ (if short then [CohereGenerate (related_terms_prompt question)] else [])"
    by (simp add: w1_def fetch_related_terms_world emit_def)
  obtain evs where t2: "trace w2 = trace w1 @ evs" and c2: "cohere_prompts evs = []"
    and q2: "chain_calls evs = []" and s2: "search_queries evs = [] \<or> search_queries evs = [query]"
    using retrieve_documents_events[of env query w1] unfolding w2_def by blast
  have t3: "trace (snd (process_input env question w)) =
      trace w @ (if short then [CohereGenerate (related_terms_prompt question)] else []) @ evs @
        (if docs = [] then [] else [QAChain docs question])"
    by (simp add: run process_question_trace t2 t1)
  define all where "all = (if short then [CohereGenerate (related_terms_prompt question)] else []) @ evs @
        (if docs = [] then [] else [QAChain docs question])"
  have ev: "events_since w (snd (process_input env question w)) = all"
    unfolding all_def by (simp add: events_since_def t3)
  have a: "cohere_prompts all = (if short then [related_terms_prompt question] else [])"
    by (simp add: all_def cohere_prompts_append c2)
  have b: "search_queries all = [] \<or> search_queries all = [query]"
    using s2 by (simp add: all_def search_queries_append)
  have c: "chain_calls all = (if docs = [] then [] else [(docs, question)])"
    by (simp add: all_def chain_calls_append q2)
  have d: "fst (process_input env question w) = fst (process_question env question docs w2)"
    by (simp add: run)
  show ?thesis
    unfolding Let_def ev
    using a b c d
    unfolding docs_def w2_def query_def w1_def related_terms_def short_def
    by (intro conjI)
qed

lemma short_question_words: "length (py_split short_question) = 2"
  by (simp add: short_question_def of_ascii_def py_split_def py_isspace_def)

lemma long_question_words: "length (py_split long_question) = 15"
  by (simp add: long_question_def of_ascii_def py_split_def py_isspace_def)

lemma sample_related_terms:
  "fst (fetch_related_terms sample_env q w) = of_ascii ''sales, income''"
  by (simp add: fetch_related_terms_def Let_def sample_env_def of_ascii_def py_strip_def
      py_isspace_def py_split_sep_def)

lemma sample_retrieve_indexed:
  "fst (retrieve_documents sample_env q (emit evs indexed_world)) = [Document [100, 111, 99]]"
  by (simp add: retrieve_documents_def indexed_world_def fresh_world_def sample_env_def emit_def)

lemma sample_retrieve_indexed_trace:
  "trace (snd (retrieve_documents sample_env q (emit evs indexed_world))) =
     evs @ [SimilaritySearch [[100, 111, 99]] q]"
  by (simp add: retrieve_documents_def indexed_world_def fresh_world_def sample_env_def emit_def)

theorem process_input_expansion_witness:
  "length (py_split short_question) < 15 \<and>
   cohere_prompts (events_since indexed_world (snd (process_input sample_env short_question indexed_world)))
     = [related_terms_prompt short_question] \<and>
   search_queries (events_since indexed_world (snd (process_input sample_env short_question indexed_world)))
     = [short_question @ [32] @ of_ascii ''sales, income''] \<and>
   chain_calls (events_since indexed_world (snd (process_input sample_env short_question indexed_world)))
     = [([Document [100, 111, 99]], short_question)] \<and>
   \<not> length (py_split long_question) < 15 \<and>
   cohere_prompts (events_since indexed_world (snd (process_input sample_env long_question indexed_world)))
     = [] \<and>
   search_queries (events_since indexed_world (snd (process_input sample_env long_question indexed_world)))
     = [long_question] \<and>
   chain_calls (events_since indexed_world (snd (process_input sample_env long_question indexed_world)))
     = [([Document [100, 111, 99]], long_question)]"
proof -
  have ne: "of_ascii ''sales, income'' \<noteq> []" by (simp add: of_ascii_def)
  have e0: "emit [] indexed_world = indexed_world" by (simp add: emit_def)
  have s: "search_queries (events_since indexed_world (snd (process_input sample_env short_question indexed_world)))
     = [short_question @ [32] @ of_ascii ''sales, income'']"
    by (simp add: process_input_run short_question_words sample_related_terms ne
        fetch_related_terms_world process_question_trace sample_retrieve_indexed
        sample_retrieve_indexed_trace events_since_def)
      (simp add: indexed_world_def fresh_world_def)
  have l: "search_queries (events_since indexed_world (snd (process_input sample_env long_question indexed_world)))
     = [long_question]"
    using sample_retrieve_indexed[of long_question "[]"]
      sample_retrieve_indexed_trace[of long_question "[]"]
    by (simp add: process_input_run long_question_words process_question_trace e0
        events_since_def)
      (simp add: indexed_world_def fresh_world_def)
  show ?thesis
    using process_input_expansion[of indexed_world sample_env short_question]
      process_input_expansion[of indexed_world sample_env long_question]
      s l sample_retrieve_indexed[of _ "[]"] e0
    by (simp add: Let_def short_question_words long_question_words sample_related_terms ne
        fetch_related_terms_world sample_retrieve_indexed)
qed

lemma fetch_related_terms_frame:
  "st (snd (fetch_related_terms env q w)) = st w \<and> fs (snd (fetch_related_terms env q w)) = fs w"
  by (simp add: fetch_related_terms_world emit_def)

lemma retrieve_documents_no_store:
  assumes "vector_store (st w) = None"
    and "fs w index_folder = None \<or>
         (\<exists>nd e. fs w index_folder = Some nd \<and> load_local env index_folder nd = Inl e)"
  shows "fst (retrieve_documents env q w) = []"
  using assms retrieve_documents_absent[of w env q] retrieve_documents_load_fails[of w _ env _ q]
  by auto

lemma process_input_no_store:
  assumes "vector_store (st w) = None"
    and "fs w index_folder = None \<or>
         (\<exists>nd e. fs w index_folder = Some nd \<and> load_local env index_folder nd = Inl e)"
  shows "fst (process_input env question w) = Inr no_documents_message \<and>
         chain_calls (events_since w (snd (process_input env question w))) = []"
proof -
  define w1 where
    "w1 = (if length (py_split question) < 15 then snd (fetch_related_terms env question w) else w)"
  have f: "st w1 = st w" "fs w1 = fs w"
    by (simp_all add: w1_def fetch_related_terms_frame)
  have t1: "\<exists>evs. trace w1 = trace w @ evs \<and> chain_calls evs = []"
    by (simp add: w1_def fetch_related_terms_world emit_def)
  have r: "\<And>query. fst (retrieve_documents env query w1) = []"
    by (rule retrieve_documents_no_store) (use assms f in auto)
  have t2: "\<And>query. \<exists>evs. trace (snd (retrieve_documents env query w1)) = trace w1 @ evs \<and>
      chain_calls evs = []"
    using retrieve_documents_events[of env _ w1] by blast
  have run: "\<exists>query. process_input env question w =
      process_question env question (fst (retrieve_documents env query w1))
        (snd (retrieve_documents env query w1))"
    unfolding w1_def by (rule exI, rule process_input_run)
  then obtain query where run': "process_input env question w =
      process_question env question [] (snd (retrieve_documents env query w1))"
    using r by auto
  obtain e1 where e1: "trace w1 = trace w @ e1" "chain_calls e1 = []" using t1 by blast
  obtain e2 where e2: "trace (snd (retrieve_documents env query w1)) = trace w1 @ e2"
    "chain_calls e2 = []" using t2 by blast
  have "events_since w (snd (process_input env question w)) = e1 @ e2"
    by (simp add: run' process_question_def events_since_def e1 e2)
  then show ?thesis
    by (simp add: run' process_question_def chain_calls_append e1 e2)
qed

text \<open>
  Claim C2. When the session has no vector store and none can be loaded from disk (no index
  folder, or loading it raises), \<open>retrieve_documents\<close> returns the empty list and
  \<open>process_input\<close> answers with the fixed message without calling the chain;
  \<open>process_question\<close> on an empty document list returns that message and changes nothing;
  when the similarity search raises, \<open>retrieve_documents\<close> returns the empty list.
\<close>

theorem no_store_no_answer:
  "(vector_store (st w) = None \<and>
      (fs w index_folder = None \<or>
       (\<exists>nd e. fs w index_folder = Some nd \<and> load_local env index_folder nd = Inl e)) \<longrightarrow>
      fst (retrieve_documents env q w) = [] \<and>
      fst (process_input env q w) = Inr no_documents_message \<and>
      chain_calls (events_since w (snd (process_input env q w))) = []) \<and>
   process_question env q [] w = (Inr no_documents_message, w) \<and>
   no_documents_message = of_ascii
     ''No relevant documents found. Please upload documents first or try a different question.'' \<and>
   (vector_store (st w) = Some vs \<and> similarity_search env vs q = Inl e \<longrightarrow>
      fst (retrieve_documents env q w) = []) \<and>
   (vector_store (st w) = None \<and> fs w index_folder = Some nd \<and>
      load_local env index_folder nd = Inr vs \<and> similarity_search env vs q = Inl e \<longrightarrow>
      fst (retrieve_documents env q w) = [])"
proof (intro conjI impI)
  assume a: "vector_store (st w) = None \<and>
      (fs w index_folder = None \<or>
       (\<exists>nd e. fs w index_folder = Some nd \<and> load_local env index_folder nd = Inl e))"
  show "fst (retrieve_documents env q w) = []"
    using a by (intro retrieve_documents_no_store) auto
  show "fst (process_input env q w) = Inr no_documents_message"
    using a process_input_no_store[of w env q] by blast
  show "chain_calls (events_since w (snd (process_input env q w))) = []"
    using a process_input_no_store[of w env q] by blast
next
  show "process_question env q [] w = (Inr no_documents_message, w)"
    by (simp add: process_question_def)
  show "no_documents_message = of_ascii
     ''No relevant documents found. Please upload documents first or try a different question.''"
    by (simp add: no_documents_message_def)
next
  assume "vector_store (st w) = Some vs \<and> similarity_search env vs q = Inl e"
  then show "fst (retrieve_documents env q w) = []"
    by (simp add: retrieve_documents_session)
next
  assume "vector_store (st w) = None \<and> fs w index_folder = Some nd \<and>
      load_local env index_folder nd = Inr vs \<and> similarity_search env vs q = Inl e"
  then show "fst (retrieve_documents env q w) = []"
    by (simp add: retrieve_documents_loaded)
qed

text \<open>
  Claim C6. \<open>retrieve_documents\<close> searches the session's vector store when there is one,
  without touching the disk; otherwise it loads the index from \<open>vector_store_index\<close>, stores
  a loaded index in the session and searches it; and \<open>load_vector_store\<close> returns \<open>None\<close>
  exactly when the path does not exist.
\<close>

theorem index_loading_fallback:
  "(vector_store (st w) = Some vs \<longrightarrow>
      retrieve_documents env q w =
        ((case similarity_search env vs q of Inl e \<Rightarrow> [] | Inr ds \<Rightarrow> ds),
         emit [SimilaritySearch vs q] w)) \<and>
   (vector_store (st w) = None \<and> fs w index_folder = Some nd \<and>
      load_local env index_folder nd = Inr vs \<longrightarrow>
      events_since w (snd (retrieve_documents env q w)) =
        [LoadLocal index_folder, SimilaritySearch vs q] \<and>
      vector_store (st (snd (retrieve_documents env q w))) = Some vs) \<and>
   (vector_store (st w) = None \<and> fs w index_folder = Some nd \<and>
      load_local env index_folder nd = Inl e \<longrightarrow>
      retrieve_documents env q w = ([], emit [LoadLocal index_folder] w)) \<and>
   (vector_store (st w) = None \<and> fs w index_folder = None \<longrightarrow>
      retrieve_documents env q w = ([], w)) \<and>
   (fst (load_vector_store env p w) = Inr None \<longleftrightarrow> fs w p = None)"
proof (intro conjI impI)
  assume "vector_store (st w) = Some vs"
  then show "retrieve_documents env q w =
        ((case similarity_search env vs q of Inl e \<Rightarrow> [] | Inr ds \<Rightarrow> ds),
         emit [SimilaritySearch vs q] w)"
    by (rule retrieve_documents_session)
next
  assume a: "vector_store (st w) = None \<and> fs w index_folder = Some nd \<and>
      load_local env index_folder nd = Inr vs"
  then have r: "retrieve_documents env q w =
     ((case similarity_search env vs q of Inl e \<Rightarrow> [] | Inr ds \<Rightarrow> ds),
      emit [SimilaritySearch vs q]
        ((emit [LoadLocal index_folder] w)\<lparr>st := (st w)\<lparr>vector_store := Some vs\<rparr>\<rparr>))"
    by (intro retrieve_documents_loaded) auto
  show "events_since w (snd (retrieve_documents env q w)) =
        [LoadLocal index_folder, SimilaritySearch vs q]"
    by (simp add: r events_since_def emit_def)
  show "vector_store (st (snd (retrieve_documents env q w))) = Some vs"
    by (simp add: r emit_def)
next
  assume "vector_store (st w) = None \<and> fs w index_folder = Some nd \<and>
      load_local env index_folder nd = Inl e"
  then show "retrieve_documents env q w = ([], emit [LoadLocal index_folder] w)"
    by (intro retrieve_documents_load_fails) auto
next
  assume "vector_store (st w) = None \<and> fs w index_folder = None"
  then show "retrieve_documents env q w = ([], w)"
    by (intro retrieve_documents_absent) auto
next
  show "fst (load_vector_store env p w) = Inr None \<longleftrightarrow> fs w p = None"
    by (rule load_vector_store_None)
qed

text \<open>
  Claim C7. What \<open>retrieve_documents\<close> returns is the list \<open>similarity_search\<close> returned,
  unchanged and in the same order, whether the store came from the session or from disk; a
  non-empty result is always the result of the search the run ended with.
\<close>

theorem retrieval_returns_search_result:
  "(vector_store (st w) = Some vs \<and> similarity_search env vs q = Inr ds \<longrightarrow>
      fst (retrieve_documents env q w) = ds) \<and>
   (vector_store (st w) = None \<and> fs w index_folder = Some nd \<and>
      load_local env index_folder nd = Inr vs \<and> similarity_search env vs q = Inr ds \<longrightarrow>
      fst (retrieve_documents env q w) = ds) \<and>
   (fst (retrieve_documents env q w) \<noteq> [] \<longrightarrow>
      (\<exists>vs'. similarity_search env vs' q = Inr (fst (retrieve_documents env q w)) \<and>
         events_since w (snd (retrieve_documents env q w)) \<noteq> [] \<and>
         last (events_since w (snd (retrieve_documents env q w))) = SimilaritySearch vs' q))"
proof (intro conjI impI)
  assume "vector_store (st w) = Some vs \<and> similarity_search env vs q = Inr ds"
  then show "fst (retrieve_documents env q w) = ds"
    by (simp add: retrieve_documents_session)
next
  assume "vector_store (st w) = None \<and> fs w index_folder = Some nd \<and>
      load_local env index_folder nd = Inr vs \<and> similarity_search env vs q = Inr ds"
  then show "fst (retrieve_documents env q w) = ds"
    by (simp add: retrieve_documents_loaded)
next
  assume ne: "fst (retrieve_documents env q w) \<noteq> []"
  show "\<exists>vs'. similarity_search env vs' q = Inr (fst (retrieve_documents env q w)) \<and>
         events_since w (snd (retrieve_documents env q w)) \<noteq> [] \<and>
         last (events_since w (snd (retrieve_documents env q w))) = SimilaritySearch vs' q"
  proof (cases rule: retrieve_documents_cases[where w=w and env=env])
    case (session vs')
    show ?thesis
      using ne by (intro exI[of _ vs'])
        (auto simp: retrieve_documents_session[OF session] events_since_def emit_def
          split: sum.splits)
  next
    case absent
    then show ?thesis using ne by (simp add: retrieve_documents_absent)
  next
    case (load_fails nd e)
    then show ?thesis using ne by (simp add: retrieve_documents_load_fails)
  next
    case (loaded nd vs')
    show ?thesis
      using ne by (intro exI[of _ vs'])
        (auto simp: retrieve_documents_loaded[OF loaded] events_since_def emit_def
          split: sum.splits)
  qed
qed

lemma fresh_world_store: "vector_store (st fresh_world) = None" "fs fresh_world p = None"
  by (simp_all add: fresh_world_def)

lemma indexed_world_store: "vector_store (st indexed_world) = Some [[100, 111, 99]]"
  by (simp add: indexed_world_def fresh_world_def)

lemma disk_world_store: "vector_store (st disk_world) = None"
  "fs disk_world index_folder = Some (IndexDir [[100, 111, 99]])"
  by (simp_all add: disk_world_def fresh_world_def)

lemma broken_disk_world_store: "vector_store (st broken_disk_world) = None"
  "fs broken_disk_world index_folder = Some Folder"
  by (simp_all add: broken_disk_world_def fresh_world_def)

lemma sample_load_local:
  "load_local sample_env p (IndexDir vs) = Inr vs"
  "load_local sample_env p Folder = Inl (Exception (of_ascii ''RuntimeError''))"
  "load_local mute_env p (IndexDir vs) = Inr vs"
  by (simp_all add: sample_env_def mute_env_def)

lemma sample_similarity_search:
  "similarity_search sample_env vs q = Inr (map Document vs)"
  "similarity_search mute_env vs q = Inl (Exception (of_ascii ''ConnectionError''))"
  by (simp_all add: sample_env_def mute_env_def)

theorem no_store_no_answer_witness:
  "fst (retrieve_documents sample_env short_question fresh_world) = [] \<and>
   fst (process_input sample_env short_question fresh_world) = Inr no_documents_message \<and>
   chain_calls (events_since fresh_world (snd (process_input sample_env short_question fresh_world))) = [] \<and>
   fst (retrieve_documents sample_env short_question broken_disk_world) = [] \<and>
   fst (process_input sample_env short_question broken_disk_world) = Inr no_documents_message \<and>
   fst (retrieve_documents mute_env short_question indexed_world) = [] \<and>
   fst (retrieve_documents mute_env short_question disk_world) = []"
  using no_store_no_answer[where w=fresh_world and env=sample_env and q=short_question]
    no_store_no_answer[where w=broken_disk_world and env=sample_env and q=short_question]
    no_store_no_answer[where w=indexed_world and vs="[[100, 111, 99]]" and env=mute_env
      and q=short_question and e="Exception (of_ascii ''ConnectionError'')"]
    no_store_no_answer[where w=disk_world and vs="[[100, 111, 99]]" and env=mute_env
      and q=short_question and e="Exception (of_ascii ''ConnectionError'')"
      and nd="IndexDir [[100, 111, 99]]"]
  by (simp add: fresh_world_store indexed_world_store disk_world_store broken_disk_world_store
      sample_load_local sample_similarity_search)

theorem index_loading_fallback_witness:
  "retrieve_documents sample_env short_question indexed_world =
     ([Document [100, 111, 99]], emit [SimilaritySearch [[100, 111, 99]] short_question] indexed_world) \<and>
   events_since disk_world (snd (retrieve_documents sample_env short_question disk_world)) =
     [LoadLocal index_folder, SimilaritySearch [[100, 111, 99]] short_question] \<and>
   vector_store (st (snd (retrieve_documents sample_env short_question disk_world))) =
     Some [[100, 111, 99]] \<and>
   retrieve_documents sample_env short_question broken_disk_world =
     ([], emit [LoadLocal index_folder] broken_disk_world) \<and>
   retrieve_documents sample_env short_question fresh_world = ([], fresh_world) \<and>
   fst (load_vector_store sample_env index_folder fresh_world) = Inr None \<and>
   fst (load_vector_store sample_env index_folder disk_world) \<noteq> Inr None"
  using index_loading_fallback[where w=indexed_world and vs="[[100, 111, 99]]" and env=sample_env
      and q=short_question and p=index_folder]
    index_loading_fallback[where w=disk_world and vs="[[100, 111, 99]]" and env=sample_env
      and q=short_question and nd="IndexDir [[100, 111, 99]]" and p=index_folder]
    index_loading_fallback[where w=broken_disk_world and env=sample_env
      and q=short_question and nd=Folder and e="Exception (of_ascii ''RuntimeError'')"
      and p=index_folder]
    index_loading_fallback[where w=fresh_world and env=sample_env
      and q=short_question and p=index_folder]
  by (simp add: fresh_world_store indexed_world_store disk_world_store broken_disk_world_store
      sample_load_local sample_similarity_search)

theorem retrieval_returns_search_result_witness:
  "similarity_search sample_env [[100, 111, 99]] short_question = Inr [Document [100, 111, 99]] \<and>
   fst (retrieve_documents sample_env short_question indexed_world) = [Document [100, 111, 99]] \<and>
   fst (retrieve_documents sample_env short_question disk_world) = [Document [100, 111, 99]] \<and>
   last (events_since indexed_world (snd (retrieve_documents sample_env short_question indexed_world)))
     = SimilaritySearch [[100, 111, 99]] short_question"
  using retrieval_returns_search_result[where w=indexed_world and vs="[[100, 111, 99]]"
      and env=sample_env and q=short_question and ds="[Document [100, 111, 99]]"]
    retrieval_returns_search_result[where w=disk_world and vs="[[100, 111, 99]]"
      and env=sample_env and q=short_question and ds="[Document [100, 111, 99]]"
      and nd="IndexDir [[100, 111, 99]]"]
  by (auto simp: fresh_world_store indexed_world_store disk_world_store
      sample_load_local sample_similarity_search)

subsection \<open>Uploads in the sidebar\<close>

lemma combine_files_step:
  "document_type ft \<Longrightarrow>
   combine_files env ft (f # rest) acc =
     (case extract_text env ft f of
        Inl e \<Rightarrow> Inl e
      | Inr t \<Rightarrow> combine_files env ft rest (acc @ t @ [10]))"
  by (auto simp: document_type_def extract_text_def split: sum.splits)

lemma combine_files_success:
  "document_type ft \<Longrightarrow> map (extract_text env ft) files = map Inr texts \<Longrightarrow>
   combine_files env ft files acc = Inr (acc @ concat (map (\<lambda>t. t @ [10]) texts))"
proof (induction files arbitrary: acc texts)
  case Nil
  then show ?case by simp
next
  case (Cons f files)
  from Cons.prems(2) obtain t ts where texts: "texts = t # ts"
    and t: "extract_text env ft f = Inr t"
    and ts: "map (extract_text env ft) files = map Inr ts"
    by (cases texts) auto
  show ?case
    using Cons.IH[OF Cons.prems(1) ts, of "acc @ t @ [10]"]
    by (simp add: combine_files_step[OF Cons.prems(1)] t texts del: combine_files.simps)
qed

lemma combine_files_Inr:
  "document_type ft \<Longrightarrow> combine_files env ft files acc = Inr c \<Longrightarrow>
   \<exists>texts. map (extract_text env ft) files = map Inr texts \<and>
     c = acc @ concat (map (\<lambda>t. t @ [10]) texts)"
proof (induction files arbitrary: acc)
  case Nil
  then show ?case by simp
next
  case (Cons f files)
  have "(case extract_text env ft f of
        Inl e \<Rightarrow> Inl e
      | Inr t \<Rightarrow> combine_files env ft files (acc @ t @ [10])) = Inr c"
    using Cons.prems(2) by (simp only: combine_files_step[OF Cons.prems(1)])
  then obtain t where t: "extract_text env ft f = Inr t"
    and r: "combine_files env ft files (acc @ t @ [10]) = Inr c"
    by (cases "extract_text env ft f") auto
  from Cons.IH[OF Cons.prems(1) r] obtain ts where
    ts: "map (extract_text env ft) files = map Inr ts"
    and c: "c = (acc @ t @ [10]) @ concat (map (\<lambda>t. t @ [10]) ts)" by blast
  show ?case
    by (rule exI[of _ "t # ts"]) (simp add: t ts c)
qed

lemma process_uploaded_files_run:
  assumes "document_type ft" "files \<noteq> []" "\<not> documents_processed (st w)"
  shows "process_uploaded_files env ft (Some files) w =
     (case clear_old_index w of
        Inl e \<Rightarrow> (Some e, w)
      | Inr w1 \<Rightarrow>
          (case combine_files env ft files [] of
             Inl e \<Rightarrow> (Some e, w1)
           | Inr c \<Rightarrow>
               (case get_vector_store env (get_text_chunks env c) index_folder
                       (w1\<lparr>st := (st w1)\<lparr>content := c\<rparr>\<rparr>) of
                  (Inl e, w3) \<Rightarrow> (Some e, w3)
                | (Inr vs, w3) \<Rightarrow>
                    (None, w3\<lparr>st := (st w3)\<lparr>vector_store := Some vs,
                                            documents_processed := True\<rparr>\<rparr>))))"
  using assms
  by (auto simp: process_uploaded_files_def document_type_def Let_def
      split: sum.splits prod.splits)

lemma process_uploaded_files_skip:
  "documents_processed (st w) \<Longrightarrow> process_uploaded_files env ft (Some files) w = (None, w)"
  by (simp add: process_uploaded_files_def)


lemma sidebar_documents:
  "document_type ft \<Longrightarrow>
   sidebar env ft files single w = process_uploaded_files env ft (Some files) w"
  by (auto simp: sidebar_def document_type_def)

lemma get_vector_store_Inr:
  assumes "get_vector_store env cs p w = (Inr vs, w')"
  shows "from_texts env (map (\<lambda>c. clean_text (Some c)) cs) False = Inr vs"
    and "save_local env vs p = None"
    and "st w' = st w"
    and "trace w' = trace w @ [FromTexts (map (\<lambda>c. clean_text (Some c)) cs) False, SaveLocal p]"
    and "fs w' = (fs w)(p \<mapsto> IndexDir vs)"
  using assms
  by (auto simp: get_vector_store_def Let_def emit_def split: sum.splits option.splits)

lemma get_vector_store_ok:
  assumes "from_texts env (map (\<lambda>c. clean_text (Some c)) cs) False = Inr vs"
    and "save_local env vs p = None"
  shows "fst (get_vector_store env cs p w) = Inr vs"
  using assms by (simp add: get_vector_store_result)

lemma process_uploaded_files_indexed:
  assumes dt: "document_type ft" and ne: "files \<noteq> []"
    and np: "\<not> documents_processed (st w)"
    and ok: "fst (process_uploaded_files env ft (Some files) w) = None"
  shows "\<exists>texts vs.
     map (extract_text env ft) files = map Inr texts \<and>
     from_texts env (map (\<lambda>c. clean_text (Some c))
        (get_text_chunks env (concat (map (\<lambda>t. t @ [10]) texts)))) False = Inr vs \<and>
     save_local env vs index_folder = None \<and>
     st (snd (process_uploaded_files env ft (Some files) w)) =
       (st w)\<lparr>content := concat (map (\<lambda>t. t @ [10]) texts), vector_store := Some vs,
               documents_processed := True\<rparr> \<and>
     trace (snd (process_uploaded_files env ft (Some files) w)) =
       trace w @ (if fs w index_folder \<noteq> None then [Rmtree index_folder] else []) @
         [FromTexts (map (\<lambda>c. clean_text (Some c))
            (get_text_chunks env (concat (map (\<lambda>t. t @ [10]) texts)))) False,
          SaveLocal index_folder] \<and>
     fs (snd (process_uploaded_files env ft (Some files) w)) index_folder = Some (IndexDir vs)"
proof -
  note run = process_uploaded_files_run[OF dt ne np, of env]
  from ok run obtain w1 where k: "clear_old_index w = Inr w1"
    by (cases "clear_old_index w") auto
  note f1 = clear_old_index_Inr[OF k]
  from ok run k obtain c where c: "combine_files env ft files [] = Inr c"
    by (cases "combine_files env ft files []") auto
  from combine_files_Inr[OF dt c] obtain texts where
    texts: "map (extract_text env ft) files = map Inr texts"
    and cc: "c = concat (map (\<lambda>t. t @ [10]) texts)" by auto
  let ?w2 = "w1\<lparr>st := (st w1)\<lparr>content := c\<rparr>\<rparr>"
  obtain r w3 where g: "get_vector_store env (get_text_chunks env c) index_folder ?w2 = (r, w3)"
    by (cases "get_vector_store env (get_text_chunks env c) index_folder ?w2")
  from ok run k c g obtain vs where r: "r = Inr vs"
    by (cases r) auto
  note gv = get_vector_store_Inr[OF g[unfolded r]]
  have res: "process_uploaded_files env ft (Some files) w =
      (None, w3\<lparr>st := (st w3)\<lparr>vector_store := Some vs, documents_processed := True\<rparr>\<rparr>)"
    using run k c g r by simp
  show ?thesis
    apply (rule exI[of _ texts], rule exI[of _ vs])
    using gv texts f1 by (simp add: res cc[symmetric])
qed

lemma process_uploaded_files_completes:
  assumes dt: "document_type ft" and ne: "files \<noteq> []"
    and np: "\<not> documents_processed (st w)"
    and nf: "\<not> index_is_file w"
    and texts: "map (extract_text env ft) files = map Inr texts"
    and ft: "from_texts env (map (\<lambda>c. clean_text (Some c))
        (get_text_chunks env (concat (map (\<lambda>t. t @ [10]) texts)))) False = Inr vs"
    and sl: "save_local env vs index_folder = None"
  shows "fst (process_uploaded_files env ft (Some files) w) = None"
proof -
  let ?c = "concat (map (\<lambda>t. t @ [10]) texts)"
  from nf obtain w1 where k: "clear_old_index w = Inr w1"
    using clear_old_index_succeeds by blast
  let ?w2 = "w1\<lparr>st := (st w1)\<lparr>content := ?c\<rparr>\<rparr>"
  have c: "combine_files env ft files [] = Inr ?c"
    using combine_files_success[OF dt texts, of "[]"] by simp
  have "fst (get_vector_store env (get_text_chunks env ?c) index_folder ?w2) = Inr vs"
    by (rule get_vector_store_ok[OF ft sl])
  then show ?thesis
    unfolding process_uploaded_files_run[OF dt ne np] k c
    by (cases "get_vector_store env (get_text_chunks env ?c) index_folder ?w2") auto
qed

lemma process_uploaded_files_index_file:
  assumes dt: "document_type ft" and ne: "files \<noteq> []"
    and np: "\<not> documents_processed (st w)"
    and nf: "index_is_file w"
  shows "fst (process_uploaded_files env ft (Some files) w) \<noteq> None \<and>
         snd (process_uploaded_files env ft (Some files) w) = w"
proof -
  from nf obtain e where k: "clear_old_index w = Inl e"
    using clear_old_index_not_file[of w] by (cases "clear_old_index w") auto
  show ?thesis unfolding process_uploaded_files_run[OF dt ne np] k by simp
qed











text \<open>
  Claim C5. When PDF, PPT or Excel files are uploaded in one batch and documents have not
  yet been processed, a run of the sidebar that ends without an exception leaves as content
  the concatenation, in upload order, of each file's extracted text followed by a newline.
  It first deletes the index on disk when there is one, then builds one FAISS index from the
  chunks of this content, each cleaned, saves it under the index path, keeps it in the
  session and sets \<open>documents_processed\<close>. The run ends without an exception when the
  index path is not a regular file and the extraction of every file, the embedding and the
  saving return.
\<close>

theorem batch_upload_indexed:
  assumes "document_type ft" and "files \<noteq> []" and "\<not> documents_processed (st w)"
  shows "(fst (sidebar env ft files single w) = None \<longrightarrow>
      (\<exists>texts vs.
         map (extract_text env ft) files = map Inr texts \<and>
         content (st (snd (sidebar env ft files single w))) =
           concat (map (\<lambda>t. t @ [10]) texts) \<and>
         from_texts env (map (\<lambda>c. clean_text (Some c))
           (get_text_chunks env (concat (map (\<lambda>t. t @ [10]) texts)))) False = Inr vs \<and>
         vector_store (st (snd (sidebar env ft files single w))) = Some vs \<and>
         documents_processed (st (snd (sidebar env ft files single w))) \<and>
         events_since w (snd (sidebar env ft files single w)) =
           (if fs w index_folder \<noteq> None then [Rmtree index_folder] else []) @
           [FromTexts (map (\<lambda>c. clean_text (Some c))
              (get_text_chunks env (concat (map (\<lambda>t. t @ [10]) texts)))) False,
            SaveLocal index_folder] \<and>
         fs (snd (sidebar env ft files single w)) index_folder = Some (IndexDir vs))) \<and>
     (\<not> index_is_file w \<and>
      map (extract_text env ft) files = map Inr extracted \<and>
      from_texts env (map (\<lambda>c. clean_text (Some c))
        (get_text_chunks env (concat (map (\<lambda>t. t @ [10]) extracted)))) False = Inr store \<and>
      save_local env store index_folder = None \<longrightarrow>
      fst (sidebar env ft files single w) = None)"
proof (intro conjI impI)
  note sb = sidebar_documents[OF assms(1), of env files single w]
  assume ok: "fst (sidebar env ft files single w) = None"
  then have ok': "fst (process_uploaded_files env ft (Some files) w) = None" by (simp add: sb)
  from process_uploaded_files_indexed[OF assms ok'] obtain texts vs where
    x: "map (extract_text env ft) files = map Inr texts"
    and f: "from_texts env (map (\<lambda>c. clean_text (Some c))
        (get_text_chunks env (concat (map (\<lambda>t. t @ [10]) texts)))) False = Inr vs"
    and s: "st (snd (process_uploaded_files env ft (Some files) w)) =
       (st w)\<lparr>content := concat (map (\<lambda>t. t @ [10]) texts), vector_store := Some vs,
               documents_processed := True\<rparr>"
    and t: "trace (snd (process_uploaded_files env ft (Some files) w)) =
       trace w @ (if fs w index_folder \<noteq> None then [Rmtree index_folder] else []) @
         [FromTexts (map (\<lambda>c. clean_text (Some c))
            (get_text_chunks env (concat (map (\<lambda>t. t @ [10]) texts)))) False,
          SaveLocal index_folder]"
    and i: "fs (snd (process_uploaded_files env ft (Some files) w)) index_folder =
       Some (IndexDir vs)"
    by blast
  have ev: "events_since w (snd (process_uploaded_files env ft (Some files) w)) =
      (if fs w index_folder \<noteq> None then [Rmtree index_folder] else []) @
         [FromTexts (map (\<lambda>c. clean_text (Some c))
            (get_text_chunks env (concat (map (\<lambda>t. t @ [10]) texts)))) False,
          SaveLocal index_folder]"
    by (rule events_since_append) (rule t)
  show "\<exists>texts vs.
         map (extract_text env ft) files = map Inr texts \<and>
         content (st (snd (sidebar env ft files single w))) =
           concat (map (\<lambda>t. t @ [10]) texts) \<and>
         from_texts env (map (\<lambda>c. clean_text (Some c))
           (get_text_chunks env (concat (map (\<lambda>t. t @ [10]) texts)))) False = Inr vs \<and>
         vector_store (st (snd (sidebar env ft files single w))) = Some vs \<and>
         documents_processed (st (snd (sidebar env ft files single w))) \<and>
         events_since w (snd (sidebar env ft files single w)) =
           (if fs w index_folder \<noteq> None then [Rmtree index_folder] else []) @
           [FromTexts (map (\<lambda>c. clean_text (Some c))
              (get_text_chunks env (concat (map (\<lambda>t. t @ [10]) texts)))) False,
            SaveLocal index_folder] \<and>
         fs (snd (sidebar env ft files single w)) index_folder = Some (IndexDir vs)"
    apply (rule exI[of _ texts], rule exI[of _ vs])
    apply (intro conjI x f)
        apply (simp_all add: sb s ev i)
    done
next
  assume h: "\<not> index_is_file w \<and>
      map (extract_text env ft) files = map Inr extracted \<and>
      from_texts env (map (\<lambda>c. clean_text (Some c))
        (get_text_chunks env (concat (map (\<lambda>t. t @ [10]) extracted)))) False = Inr store \<and>
      save_local env store index_folder = None"
  show "fst (sidebar env ft files single w) = None"
    unfolding sidebar_documents[OF assms(1)]
    using h by (intro process_uploaded_files_completes[OF assms]) auto
qed

lemma sample_extract_text:
  "map (extract_text sample_env PDF) [report, minutes] = map Inr [[104, 105], [111, 107]]"
  by (simp add: extract_text_def get_pdf_text_def sample_env_def report_def minutes_def)

lemma sample_batch_chunks:
  "map (\<lambda>c. clean_text (Some c)) (get_text_chunks sample_env [104, 105, 10, 111, 107, 10]) =
     [[104, 105, 10, 111, 107]]"
  by (simp add: get_text_chunks_def sample_env_def clean_text_def encode_replace_decode_def
      is_surrogate_def py_strip_def py_isspace_def)

lemma disk_world_index:
  "\<not> index_is_file disk_world" "fs disk_world index_folder \<noteq> None"
  "\<not> documents_processed (st disk_world)"
  by (simp_all add: index_is_file_def disk_world_def fresh_world_def)

theorem batch_upload_indexed_witness:
  "fst (sidebar sample_env PDF [report, minutes] None disk_world) = None \<and>
   content (st (snd (sidebar sample_env PDF [report, minutes] None disk_world))) =
     [104, 105, 10, 111, 107, 10] \<and>
   vector_store (st (snd (sidebar sample_env PDF [report, minutes] None disk_world))) =
     Some [[104, 105, 10, 111, 107]] \<and>
   documents_processed (st (snd (sidebar sample_env PDF [report, minutes] None disk_world))) \<and>
   events_since disk_world (snd (sidebar sample_env PDF [report, minutes] None disk_world)) =
     [Rmtree index_folder, FromTexts [[104, 105, 10, 111, 107]] False, SaveLocal index_folder] \<and>
   fs (snd (sidebar sample_env PDF [report, minutes] None disk_world)) index_folder =
     Some (IndexDir [[104, 105, 10, 111, 107]])"
proof -
  have dt: "document_type PDF" by (simp add: document_type_def)
  have ne: "[report, minutes] \<noteq> []" by simp
  note th = batch_upload_indexed[OF dt ne disk_world_index(3), where env = sample_env
      and single = None and extracted = "[[104, 105], [111, 107]]"
      and store = "[[104, 105, 10, 111, 107]]"]
  have ft: "\<And>ts n. from_texts sample_env ts n = Inr ts" by (simp add: sample_env_def)
  have sl: "\<And>vs p. save_local sample_env vs p = None" by (simp add: sample_env_def)
  have ok: "fst (sidebar sample_env PDF [report, minutes] None disk_world) = None"
    using th disk_world_index(1) sample_extract_text
    by (simp add: ft sl sample_batch_chunks)
  from th ok obtain texts vs where
    x: "map (extract_text sample_env PDF) [report, minutes] = map Inr texts"
    and r: "content (st (snd (sidebar sample_env PDF [report, minutes] None disk_world))) =
           concat (map (\<lambda>t. t @ [10]) texts) \<and>
         from_texts sample_env (map (\<lambda>c. clean_text (Some c))
           (get_text_chunks sample_env (concat (map (\<lambda>t. t @ [10]) texts)))) False = Inr vs \<and>
         vector_store (st (snd (sidebar sample_env PDF [report, minutes] None disk_world))) =
           Some vs \<and>
         documents_processed (st (snd (sidebar sample_env PDF [report, minutes] None disk_world))) \<and>
         events_since disk_world (snd (sidebar sample_env PDF [report, minutes] None disk_world)) =
           (if fs disk_world index_folder \<noteq> None then [Rmtree index_folder] else []) @
           [FromTexts (map (\<lambda>c. clean_text (Some c))
              (get_text_chunks sample_env (concat (map (\<lambda>t. t @ [10]) texts)))) False,
            SaveLocal index_folder] \<and>
         fs (snd (sidebar sample_env PDF [report, minutes] None disk_world)) index_folder =
           Some (IndexDir vs)"
    by blast
  from x have texts: "texts = [[104, 105], [111, 107]]"
    unfolding sample_extract_text by auto
  from r have vs: "vs = [[104, 105, 10, 111, 107]]"
    by (simp add: texts ft sample_batch_chunks)
  show ?thesis
    using ok r disk_world_index(2) by (simp add: texts vs sample_batch_chunks)
qed









end
